theory Spec2Isabelle
  imports Complex_Main "HOL-Library.Sublist" "HOL-Library.Log_Nat"
begin

section \<open>JavaScript numbers\<close>

text \<open>
  A JavaScript number is an IEEE-754 binary64 value. A finite one is modelled by the
  rational it denotes (\<open>-0\<close> and \<open>0\<close> are one value: no operation used here tells them
  apart); \<open>None\<close> stands for a result that is not finite, an infinity or \<open>NaN\<close>.
  Every arithmetic operation computes the exact result and rounds it to the nearest
  double, a tie going to the even significand.
\<close>

definition round_half_even :: "rat \<Rightarrow> int" where
  "round_half_even x =
     (let f = \<lfloor>x\<rfloor>; r = x - of_int f in
      if r < 1 / 2 then f else if 1 / 2 < r then f + 1 else if even f then f else f + 1)"

text \<open>The binary exponent of a rational other than zero: \<open>2 ^ k \<le> \<bar>x\<bar> < 2 ^ (k + 1)\<close>.\<close>

definition exponent :: "rat \<Rightarrow> int" where
  "exponent x =
     (let (a, b) = quotient_of \<bar>x\<bar>; k = bitlen a - bitlen b in
      if 2 powi k \<le> \<bar>x\<bar> then k else k - 1)"

text \<open>
  Rounding to 53 significant bits. Below \<open>2 ^ -1022\<close> the spacing stays that of the
  smallest normal numbers (gradual underflow); a result that rounds to \<open>2 ^ 1024\<close> or
  beyond, one whose binary exponent is 1024 or more, is an infinity.
\<close>

definition nearest_double :: "rat \<Rightarrow> rat" where
  "nearest_double x =
     (let q = 2 powi (max (exponent x) (- 1022) - 52) in of_int (round_half_even (x / q)) * q)"

definition to_double :: "rat \<Rightarrow> rat option" where
  "to_double x =
     (let d = nearest_double x in if d = 0 \<or> exponent d < 1024 then Some d else None)"

text \<open>The operators \<open>/\<close> and \<open>*\<close> on finite numbers; dividing by zero gives an infinity or
  \<open>NaN\<close>.\<close>

definition js_div :: "rat \<Rightarrow> rat \<Rightarrow> rat option" where
  "js_div a b = (if b = 0 then None else to_double (a / b))"

definition js_mul :: "rat \<Rightarrow> rat \<Rightarrow> rat option" where
  "js_mul a b = to_double (a * b)"

text \<open>\<open>Math.round\<close> gives the nearest integer, a tie going towards plus infinity; it is
  exact.\<close>

definition Math_round :: "rat \<Rightarrow> int" where
  "Math_round x = \<lfloor>x + 1 / 2\<rfloor>"


section \<open>Coordinate mapper (lib/coordinates.js)\<close>

text \<open>
  The arguments are integers (every integer of magnitude up to \<open>2 ^ 53\<close> is a double).
  A quotient or product that is not finite stays so through the rest of the
  expression, and \<open>Math.round\<close> hands it on: the result is then \<open>None\<close>.
\<close>

definition NORMALIZED_MAX :: rat where
  "NORMALIZED_MAX = 1000"

definition denormalizeX :: "int \<Rightarrow> int \<Rightarrow> int option" where
  "denormalizeX normalizedX viewportWidth =
     Option.bind (js_div (of_int normalizedX) NORMALIZED_MAX)
       (\<lambda>q. map_option Math_round (js_mul q (of_int viewportWidth)))"

definition denormalizeY :: "int \<Rightarrow> int \<Rightarrow> int option" where
  "denormalizeY normalizedY viewportHeight =
     Option.bind (js_div (of_int normalizedY) NORMALIZED_MAX)
       (\<lambda>q. map_option Math_round (js_mul q (of_int viewportHeight)))"

definition normalizeX :: "int \<Rightarrow> int \<Rightarrow> int option" where
  "normalizeX pixelX viewportWidth =
     Option.bind (js_div (of_int pixelX) (of_int viewportWidth))
       (\<lambda>q. map_option Math_round (js_mul q NORMALIZED_MAX))"

definition normalizeY :: "int \<Rightarrow> int \<Rightarrow> int option" where
  "normalizeY pixelY viewportHeight =
     Option.bind (js_div (of_int pixelY) (of_int viewportHeight))
       (\<lambda>q. map_option Math_round (js_mul q NORMALIZED_MAX))"


section \<open>JavaScript values\<close>

text \<open>
  Values that cross a message boundary (function-call arguments, action results,
  function responses) are JSON values. An object is an association list; reading a
  property that is not there gives \<open>None\<close>, JavaScript's \<open>undefined\<close>. A property
  whose value is \<open>undefined\<close> is modelled as absent: every reader in the code
  (\<open>result.url || ...\<close>) and JSON serialisation treat the two alike.
\<close>

datatype json =
    JNull
  | JBool bool
  | JNum rat
  | JStr string
  | JArr "json list"
  | JObj "(string \<times> json) list"

type_synonym js_object = "(string \<times> json) list"

definition get :: "js_object \<Rightarrow> string \<Rightarrow> json option" where
  "get obj key = map_of obj key"

text \<open>JavaScript truthiness, as tested by \<open>!v\<close>, \<open>v || w\<close> and \<open>if (v)\<close>.\<close>

fun truthy :: "json option \<Rightarrow> bool" where
  "truthy None = False"
| "truthy (Some JNull) = False"
| "truthy (Some (JBool b)) = b"
| "truthy (Some (JNum n)) = (n \<noteq> 0)"
| "truthy (Some (JStr s)) = (s \<noteq> [])"
| "truthy (Some (JArr _)) = True"
| "truthy (Some (JObj _)) = True"

text \<open>\<open>String.prototype.startsWith\<close> and \<open>String.prototype.includes\<close>.\<close>

fun startsWith :: "string \<Rightarrow> string \<Rightarrow> bool" where
  "startsWith s [] = True"
| "startsWith [] (c # cs) = False"
| "startsWith (x # xs) (c # cs) = (x = c \<and> startsWith xs cs)"

fun str_includes :: "string \<Rightarrow> string \<Rightarrow> bool" where
  "str_includes [] sub = (sub = [])"
| "str_includes (x # xs) sub = (startsWith (x # xs) sub \<or> str_includes xs sub)"


section \<open>Content script: action handlers and message listener\<close>

text \<open>
  The page as far as \<open>navigate\<close> touches it: \<open>href\<close> is \<open>window.location.href\<close> as the
  handler reads it, \<open>assigned\<close> lists the values assigned to \<open>window.location.href\<close>,
  oldest first; each assignment starts a navigation.
\<close>

record page =
  href :: string
  assigned :: "string list"

datatype handler_outcome = Returns js_object | Throws string

type_synonym handler = "js_object \<Rightarrow> page \<Rightarrow> handler_outcome \<times> page"

text \<open>
  \<open>navigate\<close> of the content script. A truthy \<open>url\<close> that is not a string has no
  \<open>startsWith\<close> method: the call throws a TypeError (the message is the engine's).
\<close>

definition navigate :: handler where
  "navigate args pg =
     (let url = get args ''url'' in
      if \<not> truthy url then
        (Returns [(''success'', JBool False), (''error'', JStr ''No URL provided''),
                  (''url'', JStr (href pg))], pg)
      else (case url of
          Some (JStr u) \<Rightarrow>
            (let url' = (if \<not> startsWith u ''http://'' \<and> \<not> startsWith u ''https://''
                         then ''https://'' @ u else u)
             in (Returns [(''success'', JBool True), (''navigatedTo'', JStr url'),
                          (''url'', JStr url')],
                 pg\<lparr>assigned := assigned pg @ [url']\<rparr>))
        | _ \<Rightarrow> (Throws ''url.startsWith is not a function'', pg)))"

text \<open>
  The handler table has the thirteen action names as its keys. The twelve handlers
  other than \<open>navigate\<close> work on the DOM; they are a parameter \<open>domHandlers\<close> of the model.
  The table is an object literal, so that the lookup \<open>actionHandlers[action]\<close> also
  finds the properties that every object inherits from \<open>Object.prototype\<close>. What
  calling one of these does (\<open>constructor\<close> returns its argument, \<open>__proto__\<close> is not a
  function and the call throws) is left to the same parameter; a reply that is not an
  object is modelled as the object without properties, which is how every reader
  of a result (\<open>result.url\<close>, \<open>result.success\<close>) sees it. The arguments of a message are
  always an object.
\<close>

definition dom_actions :: "string list" where
  "dom_actions = [''click_at'', ''type_text_at'', ''scroll_document'', ''scroll_at'',
     ''go_back'', ''go_forward'', ''hover_at'', ''key_combination'', ''drag_and_drop'',
     ''wait_5_seconds'', ''search'', ''open_web_browser'']"

definition Object_prototype_names :: "string list" where
  "Object_prototype_names = [''constructor'', ''__defineGetter__'', ''__defineSetter__'',
     ''hasOwnProperty'', ''__lookupGetter__'', ''__lookupSetter__'', ''isPrototypeOf'',
     ''propertyIsEnumerable'', ''toString'', ''valueOf'', ''__proto__'', ''toLocaleString'']"

definition actionHandlers :: "(string \<Rightarrow> handler) \<Rightarrow> string \<Rightarrow> handler option" where
  "actionHandlers domHandlers action =
     (if action = ''navigate'' then Some navigate
      else if action \<in> set dom_actions \<or> action \<in> set Object_prototype_names
        then Some (domHandlers action)
      else None)"

text \<open>The listener's branch for an \<open>EXECUTE_ACTION\<close> message: the reply it sends.\<close>

definition on_EXECUTE_ACTION ::
  "(string \<Rightarrow> handler) \<Rightarrow> string \<Rightarrow> js_object \<Rightarrow> page \<Rightarrow> js_object \<times> page" where
  "on_EXECUTE_ACTION domHandlers action args pg =
     (case actionHandlers domHandlers action of
        None \<Rightarrow>
          ([(''success'', JBool False), (''error'', JStr (''Unknown action: '' @ action))], pg)
      | Some handler \<Rightarrow>
          (case handler args pg of
             (Returns result, pg') \<Rightarrow> (result, pg')
           | (Throws message, pg') \<Rightarrow>
               ([(''success'', JBool False), (''error'', JStr message)], pg')))"


section \<open>Action executor (background service worker)\<close>

record tab =
  tab_id :: nat
  tab_url :: "string option"
  tab_status :: string

datatype send_outcome = Responds js_object | Rejects string

text \<open>
  What the browser does during one call of \<open>executeAction\<close>: the results of the
  successive \<open>chrome.tabs.query\<close> calls (the active tab, if any), of the two
  \<open>chrome.tabs.sendMessage\<close> calls and of \<open>chrome.scripting.executeScript\<close>
  (\<open>None\<close>: injected; \<open>Some m\<close>: rejected with message \<open>m\<close>).
\<close>

record browser =
  query1 :: "tab option"
  send1 :: send_outcome
  query2 :: "tab option"
  inject :: "string option"
  send2 :: send_outcome
  query3 :: "tab option"

text \<open>\<open>t?.url || ''\<close>\<close>

definition url_or_empty :: "tab option \<Rightarrow> string" where
  "url_or_empty t = (case t of None \<Rightarrow> [] | Some tb \<Rightarrow> (case tab_url tb of None \<Rightarrow> [] | Some u \<Rightarrow> u))"

text \<open>The retry after \<open>Receiving end does not exist\<close>: inject the content script, send again.\<close>

definition inject_and_retry :: "browser \<Rightarrow> send_outcome" where
  "inject_and_retry b =
     (case query2 b of
        None \<Rightarrow> Rejects ''Cannot read properties of undefined (reading 'id')''
      | Some tb \<Rightarrow>
          (case inject b of
             Some m \<Rightarrow> Rejects m
           | None \<Rightarrow> send2 b))"

text \<open>
  The first attempt of \<open>executeAction\<close>: what its \<open>try\<close> block returns, or the message
  of the error it throws.
\<close>

definition first_attempt :: "browser \<Rightarrow> string \<Rightarrow> send_outcome" where
  "first_attempt b action =
     (case query1 b of
        None \<Rightarrow> Rejects ''No active tab found''
      | Some tb \<Rightarrow>
          if action = ''wait_5_seconds'' then
            Responds ([(''success'', JBool True), (''waited'', JNum 5000)]
                      @ (case tab_url tb of None \<Rightarrow> [] | Some u \<Rightarrow> [(''url'', JStr u)]))
          else send1 b)"

text \<open>\<open>executeAction\<close> of src/background/service-worker.js.\<close>

definition executeAction :: "browser \<Rightarrow> string \<Rightarrow> js_object \<Rightarrow> bool \<Rightarrow> js_object" where
  "executeAction b action args highlightMouse =
     (case first_attempt b action of
        Responds response \<Rightarrow> response
      | Rejects message \<Rightarrow>
          if str_includes message ''Receiving end does not exist'' then
            (case inject_and_retry b of
               Responds response \<Rightarrow> response
             | Rejects injectMessage \<Rightarrow>
                 [(''success'', JBool False),
                  (''error'', JStr (''Failed to inject content script: '' @ injectMessage)),
                  (''url'', JStr (url_or_empty (query3 b)))])
          else
            [(''success'', JBool False), (''error'', JStr message),
             (''url'', JStr (url_or_empty (query3 b)))])"

text \<open>
  \<open>executeAction\<close> of the older service worker (the variant built on lib/api.js): its
  failure results carry no \<open>url\<close>.
\<close>

definition executeAction_legacy :: "browser \<Rightarrow> string \<Rightarrow> js_object \<Rightarrow> bool \<Rightarrow> js_object" where
  "executeAction_legacy b action args highlightMouse =
     (case first_attempt b action of
        Responds response \<Rightarrow> response
      | Rejects message \<Rightarrow>
          if str_includes message ''Receiving end does not exist'' then
            (case inject_and_retry b of
               Responds response \<Rightarrow> response
             | Rejects injectMessage \<Rightarrow>
                 [(''success'', JBool False),
                  (''error'', JStr (''Failed to inject content script: '' @ injectMessage))])
          else
            [(''success'', JBool False), (''error'', JStr message)])"

text \<open>
  The \<open>response\<close> object that \<open>runOneIteration\<close> builds from an action result:
  \<open>{ url: result.url || await getCurrentUrl() }\<close>, with the safety acknowledgement
  when the action was confirmed.
\<close>

definition build_response :: "js_object \<Rightarrow> string \<Rightarrow> bool \<Rightarrow> js_object" where
  "build_response result currentUrl safetyAcknowledgement =
     [(''url'', (if truthy (get result ''url'') then the (get result ''url'') else JStr currentUrl))]
     @ (if safetyAcknowledgement then [(''safety_acknowledgement'', JStr ''true'')] else [])"


section \<open>Conversation history (BrowserAgent)\<close>

record image =
  mimeType :: string
  data :: string

text \<open>
  A function response: \<open>fr_parts\<close> is its \<open>parts\<close> property, the screenshot payload;
  \<open>None\<close> stands for \<open>null\<close> and for a property that was never set.
\<close>

record function_response =
  fr_name :: string
  fr_response :: js_object
  fr_parts :: "image list option"

text \<open>
  A part as the model API sends it and as the agent builds it: every property is
  optional. A function call carries its name and, if present, its \<open>args\<close> object.
\<close>

record part =
  p_text :: "string option"
  p_thought :: bool
  p_functionCall :: "(string \<times> js_object option) option"
  p_functionResponse :: "function_response option"
  p_inlineData :: "image option"

record content =
  c_role :: string
  c_parts :: "part list option"

definition PREDEFINED_COMPUTER_USE_FUNCTIONS :: "string list" where
  "PREDEFINED_COMPUTER_USE_FUNCTIONS =
     [''open_web_browser'', ''click_at'', ''hover_at'', ''type_text_at'', ''scroll_document'',
      ''scroll_at'', ''wait_5_seconds'', ''go_back'', ''go_forward'', ''search'', ''navigate'',
      ''key_combination'', ''drag_and_drop'']"

definition MAX_RECENT_TURN_WITH_SCREENSHOTS :: nat where
  "MAX_RECENT_TURN_WITH_SCREENSHOTS = 3"

text \<open>
  The test \<open>part.functionResponse?.parts &&
  PREDEFINED_COMPUTER_USE_FUNCTIONS.includes(part.functionResponse.name)\<close>.
\<close>

definition screenshot_part :: "part \<Rightarrow> bool" where
  "screenshot_part p =
     (case p_functionResponse p of
        None \<Rightarrow> False
      | Some fr \<Rightarrow> fr_parts fr \<noteq> None \<and> fr_name fr \<in> set PREDEFINED_COMPUTER_USE_FUNCTIONS)"

text \<open>The value of \<open>hasScreenshot\<close> for a turn of the history.\<close>

definition hasScreenshot :: "content \<Rightarrow> bool" where
  "hasScreenshot c =
     (c_role c = ''user'' \<and>
      (case c_parts c of None \<Rightarrow> False | Some ps \<Rightarrow> list_ex screenshot_part ps))"

text \<open>The inner loop that sets \<open>part.functionResponse.parts = null\<close>.\<close>

definition strip_part :: "part \<Rightarrow> part" where
  "strip_part p =
     (case p_functionResponse p of
        None \<Rightarrow> p
      | Some fr \<Rightarrow>
          if fr_parts fr \<noteq> None \<and> fr_name fr \<in> set PREDEFINED_COMPUTER_USE_FUNCTIONS
          then p\<lparr>p_functionResponse := Some (fr\<lparr>fr_parts := None\<rparr>)\<rparr>
          else p)"

definition strip_content :: "content \<Rightarrow> content" where
  "strip_content c = c\<lparr>c_parts := map_option (map strip_part) (c_parts c)\<rparr>"

text \<open>
  The backwards scan of \<open>_cleanupOldScreenshots\<close>: the list is the history from its
  end, most recent turn first, and \<open>found\<close> is \<open>turnWithScreenshotsFound\<close>.
\<close>

fun cleanup_scan :: "nat \<Rightarrow> content list \<Rightarrow> content list" where
  "cleanup_scan found [] = []"
| "cleanup_scan found (c # older) =
     (if hasScreenshot c then
        (if found + 1 > MAX_RECENT_TURN_WITH_SCREENSHOTS then strip_content c else c)
          # cleanup_scan (found + 1) older
      else c # cleanup_scan found older)"

definition cleanupOldScreenshots :: "content list \<Rightarrow> content list" where
  "cleanupOldScreenshots contents = rev (cleanup_scan 0 (rev contents))"

text \<open>An entry of the \<open>functionResponses\<close> array that \<open>runOneIteration\<close> collects.\<close>

record response_entry =
  re_name :: string
  re_response :: js_object
  re_screenshot :: string

definition response_part :: "response_entry \<Rightarrow> part" where
  "response_part fr =
     \<lparr>p_text = None, p_thought = False, p_functionCall = None,
      p_functionResponse = Some
        \<lparr>fr_name = re_name fr, fr_response = re_response fr,
         fr_parts = (if re_screenshot fr \<noteq> []
                     then Some [\<lparr>mimeType = ''image/png'', data = re_screenshot fr\<rparr>]
                     else None)\<rparr>,
      p_inlineData = None\<rparr>"

definition addFunctionResponses :: "response_entry list \<Rightarrow> content list \<Rightarrow> content list" where
  "addFunctionResponses functionResponses contents =
     cleanupOldScreenshots
       (contents @ [\<lparr>c_role = ''user'', c_parts = Some (map response_part functionResponses)\<rparr>])"

definition text_part :: "string \<Rightarrow> part" where
  "text_part t =
     \<lparr>p_text = Some t, p_thought = False, p_functionCall = None,
      p_functionResponse = None, p_inlineData = None\<rparr>"

definition startConversation :: "string \<Rightarrow> content list" where
  "startConversation query = [\<lparr>c_role = ''user'', c_parts = Some [text_part query]\<rparr>]"

definition addUserMessage :: "string \<Rightarrow> content list \<Rightarrow> content list" where
  "addUserMessage t contents = contents @ [\<lparr>c_role = ''user'', c_parts = Some [text_part t]\<rparr>]"


section \<open>Model gateway (BrowserAgent.getModelResponse)\<close>

record api_error =
  err_message :: "string option"
  err_status :: "nat option"
  err_statusText :: "string option"

record candidate =
  cand_content :: "content option"
  cand_finishReason :: "string option"

record response =
  candidates :: "candidate list option"

datatype generate_outcome = Resolves response | Fails api_error

text \<open>The result of an \<open>await\<close>: the promise settles with a value, or it never settles.\<close>

datatype 'a awaited = Settled 'a | Never

record function_call =
  fc_name :: string
  fc_args :: js_object

text \<open>
  Messages to the side panel. An \<open>UPDATE_CONVERSATION\<close> carries the role, the text, the
  thought summary and the actions; the actions are kept as function calls, their
  rendering for display by \<open>formatFunctionCall\<close> is not modelled.
\<close>

datatype sidepanel_message =
    ERROR string
  | UPDATE_CONVERSATION string "string option" "string option" "function_call list"
  | STATUS_UPDATE string
  | SAFETY_CONFIRMATION function_call json
  | TRAJECTORY_UPDATED

text \<open>
  The effects of the service worker, in the order in which they happen; console output
  is diagnostic and is left out. \<open>GenerateContent\<close> and \<open>Fetch\<close> are requests to the
  model with the history they carry, \<open>Sleep\<close> is a timer in milliseconds.
  \<open>SafetyAnswer k allowed\<close>: the confirmation requested for the call at position \<open>k\<close>
  of the batch was answered; \<open>ExecuteAction k fc\<close>: \<open>executeAction\<close> was called for the
  call at position \<open>k\<close>.
\<close>

datatype event =
    GenerateContent "content list"
  | Fetch "content list"
  | Sleep nat
  | ToSidepanel sidepanel_message
  | SafetyAnswer nat bool
  | ExecuteAction nat function_call
  | WaitForPageSettle
  | CaptureScreenshot
  | SaveTrajectory

definition digit_char :: "nat \<Rightarrow> char" where
  "digit_char d = char_of (48 + d)"

text \<open>The decimal rendering of a number in a template literal.\<close>

function nat_to_string :: "nat \<Rightarrow> string" where
  "nat_to_string n =
     (if n < 10 then [digit_char n] else nat_to_string (n div 10) @ [digit_char (n mod 10)])"
  by pat_completeness auto
termination
  by (relation "measure id") auto

declare nat_to_string.simps [simp del]

text \<open>The message of the \<open>enhancedError\<close> thrown after the final attempt.\<close>

definition enhanced_message :: "api_error \<Rightarrow> string" where
  "enhanced_message error =
     (let m0 = (case err_message error of
                  None \<Rightarrow> ''Unknown API error''
                | Some m \<Rightarrow> if m \<noteq> [] then m else ''Unknown API error'');
          m1 = (case err_status error of
                  None \<Rightarrow> m0
                | Some st \<Rightarrow> if st \<noteq> 0 then ''['' @ nat_to_string st @ ''] '' @ m0 else m0)
      in (case err_statusText error of
            None \<Rightarrow> m1
          | Some t \<Rightarrow> if t \<noteq> [] then m1 @ '' ('' @ t @ '')'' else m1))"

definition maxRetries :: nat where
  "maxRetries = 5"

definition baseDelayMs :: nat where
  "baseDelayMs = 1000"

text \<open>
  The \<open>for\<close> loop of \<open>getModelResponse\<close> from a given \<open>attempt\<close> on. The argument
  \<open>generate\<close> gives what \<open>model.generateContent\<close> does at each attempt (\<open>None\<close>: the
  call never settles). The result is the response or the message of the thrown error,
  with the effects of the loop. Leaving the loop without a \<open>return\<close> gives \<open>undefined\<close>,
  here \<open>Inr None\<close>.
\<close>

function getModelResponse_from ::
  "(nat \<Rightarrow> generate_outcome option) \<Rightarrow> content list \<Rightarrow> nat
    \<Rightarrow> (string + response option) awaited \<times> event list" where
  "getModelResponse_from generate contents attempt =
     (if attempt < maxRetries then
        (case generate attempt of
           None \<Rightarrow> (Never, [GenerateContent contents])
         | Some (Resolves r) \<Rightarrow> (Settled (Inr (Some r)), [GenerateContent contents])
         | Some (Fails error) \<Rightarrow>
             if attempt = maxRetries - 1 then
               (Settled (Inl (enhanced_message error)), [GenerateContent contents])
             else
               (case getModelResponse_from generate contents (attempt + 1) of
                  (result, later) \<Rightarrow>
                    (result,
                     [GenerateContent contents, Sleep (baseDelayMs * 2 ^ attempt)] @ later)))
      else (Settled (Inr None), []))"
  by pat_completeness auto
termination
  by (relation "measure (\<lambda>(generate, contents, attempt). maxRetries - attempt)")
    (auto simp: maxRetries_def)

declare getModelResponse_from.simps [simp del]

definition getModelResponse ::
  "(nat \<Rightarrow> generate_outcome option) \<Rightarrow> content list
    \<Rightarrow> (string + response option) awaited \<times> event list" where
  "getModelResponse generate contents = getModelResponse_from generate contents 0"


section \<open>Reading a candidate (BrowserAgent)\<close>

definition getText :: "candidate \<Rightarrow> string option" where
  "getText candidate =
     (case cand_content candidate of
        None \<Rightarrow> None
      | Some c \<Rightarrow>
          (case c_parts c of
             None \<Rightarrow> None
           | Some ps \<Rightarrow>
               (let textParts = List.map_filter
                      (\<lambda>p. case p_text p of
                              None \<Rightarrow> None
                            | Some t \<Rightarrow> if t \<noteq> [] \<and> \<not> p_thought p then Some t else None) ps
                in if textParts \<noteq> [] then Some (concat textParts) else None)))"

text \<open>\<open>Array.prototype.join\<close> with a separator.\<close>

fun join :: "string \<Rightarrow> string list \<Rightarrow> string" where
  "join sep [] = []"
| "join sep [x] = x"
| "join sep (x # y # ys) = x @ sep @ join sep (y # ys)"

definition extractThoughtSummary :: "candidate \<Rightarrow> string option" where
  "extractThoughtSummary candidate =
     (case cand_content candidate of
        None \<Rightarrow> None
      | Some c \<Rightarrow>
          (case c_parts c of
             None \<Rightarrow> None
           | Some ps \<Rightarrow>
               (let thoughtParts = List.map_filter
                      (\<lambda>p. case p_text p of
                              None \<Rightarrow> None
                            | Some t \<Rightarrow> if p_thought p \<and> t \<noteq> [] then Some t else None) ps
                in if thoughtParts \<noteq> [] then Some (join [CHR 0x0A] thoughtParts) else None)))"

definition calls_of_parts :: "part list \<Rightarrow> function_call list" where
  "calls_of_parts ps =
     List.map_filter
       (\<lambda>p. case p_functionCall p of
               None \<Rightarrow> None
             | Some (name, args) \<Rightarrow>
                 Some \<lparr>fc_name = name, fc_args = (case args of None \<Rightarrow> [] | Some obj \<Rightarrow> obj)\<rparr>) ps"

definition extractFunctionCalls :: "candidate \<Rightarrow> function_call list" where
  "extractFunctionCalls candidate =
     (case cand_content candidate of
        None \<Rightarrow> []
      | Some c \<Rightarrow> (case c_parts c of None \<Rightarrow> [] | Some ps \<Rightarrow> calls_of_parts ps))"

definition isMalformedFunctionCall :: "candidate \<Rightarrow> bool" where
  "isMalformedFunctionCall candidate =
     (cand_finishReason candidate = Some ''MALFORMED_FUNCTION_CALL'')"

definition addModelResponse :: "candidate \<Rightarrow> content list \<Rightarrow> content list" where
  "addModelResponse candidate contents =
     (case cand_content candidate of None \<Rightarrow> contents | Some c \<Rightarrow> contents @ [c])"

text \<open>
  \<open>requiresSafetyConfirmation\<close>: \<open>None\<close> is \<open>{ required: false }\<close>, \<open>Some e\<close> is
  \<open>{ required: true, explanation: e }\<close>. Only an object has a \<open>decision\<close> property.
\<close>

definition requiresSafetyConfirmation :: "function_call \<Rightarrow> json option" where
  "requiresSafetyConfirmation functionCall =
     (case get (fc_args functionCall) ''safety_decision'' of
        Some (JObj safetyDecision) \<Rightarrow>
          if get safetyDecision ''decision'' = Some (JStr ''require_confirmation'') then
            Some (case get safetyDecision ''explanation'' of
                    None \<Rightarrow> JStr ''Action requires confirmation''
                  | Some e \<Rightarrow> if truthy (Some e) then e else JStr ''Action requires confirmation'')
          else None
      | _ \<Rightarrow> None)"


section \<open>The question test (isWaitingForInput)\<close>

text \<open>
  Text is a list of 8-bit characters, so of the line terminators of a regular
  expression only line feed and carriage return occur in it.
\<close>

definition is_line_terminator :: "char \<Rightarrow> bool" where
  "is_line_terminator c = (c = CHR 0x0A \<or> c = CHR 0x0D)"

text \<open>\<open>/\?$/m.test(text)\<close>: a question mark that is followed by the end of the text or
  by a line terminator.\<close>

fun question_mark_at_line_end :: "string \<Rightarrow> bool" where
  "question_mark_at_line_end [] = False"
| "question_mark_at_line_end (c # rest) =
     ((c = CHR ''?'' \<and> (case rest of [] \<Rightarrow> True | d # _ \<Rightarrow> is_line_terminator d))
      \<or> question_mark_at_line_end rest)"

text \<open>The canonical form of a character under the flag \<open>i\<close>; the patterns are ASCII.\<close>

definition fold_case :: "char \<Rightarrow> char" where
  "fold_case c =
     (let n = (of_char c :: nat) in if 65 \<le> n \<and> n \<le> 90 then char_of (n + 32) else c)"

text \<open>\<open>/phrase/i.test(text)\<close> for a pattern without metacharacters.\<close>

definition test_ignoring_case :: "string \<Rightarrow> string \<Rightarrow> bool" where
  "test_ignoring_case phrase t = str_includes (map fold_case t) (map fold_case phrase)"

definition questionIndicators :: "(string \<Rightarrow> bool) list" where
  "questionIndicators =
     [question_mark_at_line_end,
      test_ignoring_case ''please confirm'',
      test_ignoring_case ''should I'',
      test_ignoring_case ''would you like'',
      test_ignoring_case ''which one'',
      test_ignoring_case ''do you want'',
      (\<lambda>t. test_ignoring_case ''can you tell'' t \<or> test_ignoring_case ''can you provide'' t
            \<or> test_ignoring_case ''can you specify'' t),
      test_ignoring_case ''let me know'']"

text \<open>\<open>isWaitingForInput(text)\<close> of BrowserAgent; the argument is the result of \<open>getText\<close>.\<close>

definition isWaitingForInput :: "string option \<Rightarrow> bool" where
  "isWaitingForInput t =
     (case t of
        None \<Rightarrow> False
      | Some s \<Rightarrow> if s = [] then False else list_ex (\<lambda>pattern. pattern s) questionIndicators)"


section \<open>The older model gateway (callGeminiAPI of lib/api.js)\<close>

text \<open>
  The body of an HTTP reply as far as the code reads it: \<open>error?.message\<close> and
  \<open>candidates\<close>. A \<open>fetch\<close> rejects with an error (its name and message) or gives a
  status with a body; \<open>None\<close> is a body that is not JSON.
\<close>

record api_body =
  body_error_message :: "string option"
  body_candidates :: "candidate list option"

datatype fetch_outcome = FetchRejects string string | FetchResponds nat "api_body option"

definition api_maxRetries :: nat where
  "api_maxRetries = 3"

text \<open>\<open>parseResponse\<close>: the parts of the first candidate, or the message of the error thrown.\<close>

definition parseResponse :: "api_body \<Rightarrow> string + part list" where
  "parseResponse body =
     (case body_candidates body of
        None \<Rightarrow> Inl ''No response from model''
      | Some [] \<Rightarrow> Inl ''No response from model''
      | Some (candidate # _) \<Rightarrow>
          if cand_finishReason candidate = Some ''SAFETY'' then
            Inl ''Response blocked by safety filters''
          else (case cand_content candidate of
              None \<Rightarrow> Inl ''Invalid response structure''
            | Some c \<Rightarrow>
                (case c_parts c of
                   None \<Rightarrow> Inl ''Invalid response structure''
                 | Some ps \<Rightarrow> Inr ps)))"

text \<open>
  One pass through the \<open>try\<close> block: it returns the parts, goes on to the next attempt
  after a rate limit, or throws an error with a name and a message.
\<close>

datatype attempt = Return "part list" | RetryRateLimited | Throw string string

definition try_fetch :: "fetch_outcome \<Rightarrow> nat \<Rightarrow> attempt" where
  "try_fetch outcome retries =
     (case outcome of
        FetchRejects name message \<Rightarrow> Throw name message
      | FetchResponds status body \<Rightarrow>
          if status = 401 then Throw ''Error'' ''Invalid API key or unauthorized access''
          else if status = 429 then
            (if retries < api_maxRetries then RetryRateLimited
             else Throw ''Error'' ''Rate limited. Please try again later.'')
          else if \<not> (200 \<le> status \<and> status \<le> 299) then
            Throw ''Error''
              (case body of
                 None \<Rightarrow> ''API error: '' @ nat_to_string status
               | Some b \<Rightarrow>
                   (case body_error_message b of
                      None \<Rightarrow> ''API error: '' @ nat_to_string status
                    | Some m \<Rightarrow> if m \<noteq> [] then m else ''API error: '' @ nat_to_string status))
          else (case body of
              None \<Rightarrow> Throw ''SyntaxError'' ''Unexpected end of JSON input''
            | Some b \<Rightarrow>
                (case parseResponse b of
                   Inl message \<Rightarrow> Throw ''Error'' message
                 | Inr ps \<Rightarrow> Return ps)))"

text \<open>
  The \<open>while\<close> loop of \<open>callGeminiAPI\<close> from a given value of \<open>retries\<close> on;
  \<open>fetchAt a\<close> is what \<open>fetch\<close> does at attempt \<open>a\<close> (\<open>None\<close>: it never settles).
\<close>

function callGeminiAPI_from ::
  "(nat \<Rightarrow> fetch_outcome option) \<Rightarrow> content list \<Rightarrow> nat
    \<Rightarrow> (string + part list option) awaited \<times> event list" where
  "callGeminiAPI_from fetchAt conversationHistory retries =
     (if retries \<le> api_maxRetries then
        (case fetchAt retries of
           None \<Rightarrow> (Never, [Fetch conversationHistory])
         | Some outcome \<Rightarrow>
             (case try_fetch outcome retries of
                Return ps \<Rightarrow> (Settled (Inr (Some ps)), [Fetch conversationHistory])
              | RetryRateLimited \<Rightarrow>
                  (case callGeminiAPI_from fetchAt conversationHistory (retries + 1) of
                     (result, later) \<Rightarrow>
                       (result, [Fetch conversationHistory, Sleep (2 ^ retries * 1000)] @ later))
              | Throw name message \<Rightarrow>
                  if str_includes message ''Rate limited'' \<or> str_includes message ''Invalid API''
                  then (Settled (Inl message), [Fetch conversationHistory])
                  else if retries < api_maxRetries \<and> name = ''TypeError'' then
                    (case callGeminiAPI_from fetchAt conversationHistory (retries + 1) of
                       (result, later) \<Rightarrow>
                         (result, [Fetch conversationHistory, Sleep (2 ^ retries * 1000)] @ later))
                  else (Settled (Inl message), [Fetch conversationHistory])))
      else (Settled (Inr None), []))"
  by pat_completeness auto
termination
  by (relation "measure (\<lambda>(fetchAt, conversationHistory, retries). Suc api_maxRetries - retries)")
    (auto simp: api_maxRetries_def)

declare callGeminiAPI_from.simps [simp del]

definition callGeminiAPI ::
  "(nat \<Rightarrow> fetch_outcome option) \<Rightarrow> content list
    \<Rightarrow> (string + part list option) awaited \<times> event list" where
  "callGeminiAPI fetchAt conversationHistory = callGeminiAPI_from fetchAt conversationHistory 0"

text \<open>
  \<open>extractText\<close> of lib/api.js joins the text of all parts and trims it. The white
  space among 8-bit characters: tab, line feed, vertical tab, form feed, carriage
  return, space and no-break space.
\<close>

definition is_white_space :: "char \<Rightarrow> bool" where
  "is_white_space c = ((of_char c :: nat) \<in> {9, 10, 11, 12, 13, 32, 160})"

definition trim :: "string \<Rightarrow> string" where
  "trim t = rev (dropWhile is_white_space (rev (dropWhile is_white_space t)))"

definition extractText :: "part list \<Rightarrow> string" where
  "extractText ps =
     trim (concat (List.map_filter
       (\<lambda>p. case p_text p of None \<Rightarrow> None | Some t \<Rightarrow> if t \<noteq> [] then Some t else None) ps))"

text \<open>\<open>isWaitingForInput(parts)\<close> of lib/api.js.\<close>

definition isWaitingForInput_api :: "part list \<Rightarrow> bool" where
  "isWaitingForInput_api ps =
     (let t = extractText ps; functionCalls = calls_of_parts ps
      in if functionCalls \<noteq> [] then False
         else if t = [] then False
         else list_ex (\<lambda>pattern. pattern t) questionIndicators)"

text \<open>\<open>buildFunctionResponse\<close> of lib/api.js: a copy of the result, with the
  acknowledgement set on it when the action was confirmed.\<close>

definition buildFunctionResponse :: "string \<Rightarrow> js_object \<Rightarrow> bool \<Rightarrow> part" where
  "buildFunctionResponse name result safetyAcknowledgement =
     \<lparr>p_text = None, p_thought = False, p_functionCall = None,
      p_functionResponse = Some
        \<lparr>fr_name = name,
         fr_response = (if safetyAcknowledgement
                        then (''safety_acknowledgement'', JStr ''true'') # result else result),
         fr_parts = None\<rparr>,
      p_inlineData = None\<rparr>"


section \<open>The agent loop (src/background/service-worker.js)\<close>

record trajectory_step =
  ts_screenshot :: "string option"
  ts_text :: "string option"
  ts_thoughts :: "string option"
  ts_actions :: "function_call list"
  ts_result :: js_object

text \<open>
  The state of the service worker: the agent's \<open>contents\<close> and \<open>finalReasoning\<close> and
  the trajectory steps. Every operation returns the new state together with the list
  of its effects.
\<close>

record agent_state =
  contents :: "content list"
  finalReasoning :: "string option"
  trajectorySteps :: "trajectory_step list"

text \<open>
  The surroundings of one iteration. \<open>generate a\<close> and \<open>fetch a\<close>: what the model
  endpoint does at attempt \<open>a\<close>. \<open>shouldStop k\<close>: the value of the flag \<open>shouldStop\<close>
  when it is read after \<open>k\<close> calls of the batch have been handled (the flag is written
  by the \<open>STOP_AGENT\<close> message). \<open>safetyResponse k\<close>: the \<open>allowed\<close> value of the
  \<open>SAFETY_RESPONSE\<close> message that answers the confirmation requested for the call at
  position \<open>k\<close>, \<open>None\<close> if it is never answered. \<open>browserAt k\<close>: the browser during
  \<open>executeAction\<close> for that call. \<open>captureScreenshot k\<close>: the screenshot taken after
  it, or the message of the error that \<open>captureScreenshot\<close> throws. \<open>getCurrentUrl k\<close>:
  the URL of the active tab at that moment, or the empty string.
\<close>

record world =
  generate :: "nat \<Rightarrow> generate_outcome option"
  fetch :: "nat \<Rightarrow> fetch_outcome option"
  shouldStop :: "nat \<Rightarrow> bool"
  safetyResponse :: "nat \<Rightarrow> bool option"
  browserAt :: "nat \<Rightarrow> browser"
  captureScreenshot :: "nat \<Rightarrow> string + string"
  getCurrentUrl :: "nat \<Rightarrow> string"

text \<open>
  The safety check at the head of the loop body: the action may proceed (with or
  without an acknowledgement), it was denied, or the confirmation is never answered.
\<close>

datatype gate = Proceed bool | Refused | Unanswered

definition safety_gate :: "world \<Rightarrow> nat \<Rightarrow> function_call \<Rightarrow> gate \<times> event list" where
  "safety_gate w k fc =
     (case requiresSafetyConfirmation fc of
        None \<Rightarrow> (Proceed False, [])
      | Some explanation \<Rightarrow>
          (case safetyResponse w k of
             None \<Rightarrow> (Unanswered, [ToSidepanel (SAFETY_CONFIRMATION fc explanation)])
           | Some allowed \<Rightarrow>
               (if \<not> allowed then Refused else Proceed True,
                [ToSidepanel (SAFETY_CONFIRMATION fc explanation), SafetyAnswer k allowed])))"

text \<open>
  The rest of the loop body for an action that proceeds: execute it, wait for the
  page, take the screenshot, build the function response, record the trajectory step.
\<close>

definition perform_action ::
  "world \<Rightarrow> bool \<Rightarrow> string option \<Rightarrow> string option \<Rightarrow> nat \<Rightarrow> function_call \<Rightarrow> bool
    \<Rightarrow> agent_state \<Rightarrow> (string + response_entry) \<times> agent_state \<times> event list" where
  "perform_action w highlightMouse reasoning thoughtSummary k fc safetyAcknowledgement s =
     (let result = executeAction (browserAt w k) (fc_name fc) (fc_args fc) highlightMouse
      in case captureScreenshot w k of
           Inl message \<Rightarrow>
             (Inl message, s, [ExecuteAction k fc, WaitForPageSettle, CaptureScreenshot])
         | Inr screenshot \<Rightarrow>
             (let response = build_response result (getCurrentUrl w k) safetyAcknowledgement;
                  step = \<lparr>ts_screenshot = Some screenshot, ts_text = reasoning,
                          ts_thoughts = thoughtSummary, ts_actions = [fc],
                          ts_result = response\<rparr>
              in (Inr \<lparr>re_name = fc_name fc, re_response = response,
                       re_screenshot = screenshot\<rparr>,
                  s\<lparr>trajectorySteps := trajectorySteps s @ [step]\<rparr>,
                  [ExecuteAction k fc, WaitForPageSettle, CaptureScreenshot, SaveTrajectory,
                   ToSidepanel TRAJECTORY_UPDATED, Sleep 200])))"

text \<open>How the \<open>for\<close> loop over the function calls ends.\<close>

datatype batch_end = Finished | Stopped | Denied | Awaiting | Raised string

text \<open>
  The \<open>for\<close> loop of \<open>runOneIteration\<close> from the call at position \<open>k\<close> on, with the
  function responses collected so far.
\<close>

fun executeFunctionCalls ::
  "world \<Rightarrow> bool \<Rightarrow> string option \<Rightarrow> string option \<Rightarrow> nat \<Rightarrow> function_call list
    \<Rightarrow> response_entry list \<Rightarrow> agent_state
    \<Rightarrow> batch_end \<times> response_entry list \<times> agent_state \<times> event list" where
  "executeFunctionCalls w highlightMouse reasoning thoughtSummary k [] functionResponses s =
     (Finished, functionResponses, s, [])"
| "executeFunctionCalls w highlightMouse reasoning thoughtSummary k (fc # rest) functionResponses s =
     (if shouldStop w k then (Stopped, functionResponses, s, [])
      else (case safety_gate w k fc of
          (Unanswered, asked) \<Rightarrow> (Awaiting, functionResponses, s, asked)
        | (Refused, asked) \<Rightarrow> (Denied, functionResponses, s, asked)
        | (Proceed safetyAcknowledgement, asked) \<Rightarrow>
            (case perform_action w highlightMouse reasoning thoughtSummary k fc
                    safetyAcknowledgement s of
               (Inl message, s1, done) \<Rightarrow> (Raised message, functionResponses, s1, asked @ done)
             | (Inr entry, s1, done) \<Rightarrow>
                 (case executeFunctionCalls w highlightMouse reasoning thoughtSummary (Suc k)
                         rest (functionResponses @ [entry]) s1 of
                    (end, functionResponses', s2, later) \<Rightarrow>
                      (end, functionResponses', s2, asked @ done @ later)))))"

text \<open>
  What \<open>runOneIteration\<close> returns: \<open>COMPLETE\<close>, \<open>CONTINUE\<close>, nothing because an awaited
  promise never settles, or an exception that leaves it.
\<close>

datatype iteration_result = COMPLETE | CONTINUE | Suspended | Thrown string

text \<open>The branch of \<open>runOneIteration\<close> for a reply without function calls.\<close>

definition finish_without_calls ::
  "string option \<Rightarrow> string option \<Rightarrow> agent_state \<Rightarrow> agent_state \<times> event list" where
  "finish_without_calls reasoning thoughtSummary s =
     (let s1 = s\<lparr>finalReasoning := reasoning\<rparr>;
          status = ToSidepanel (STATUS_UPDATE
                     (if isWaitingForInput reasoning then ''waiting'' else ''idle''))
      in if reasoning \<noteq> None \<and> reasoning \<noteq> Some [] \<or>
            thoughtSummary \<noteq> None \<and> thoughtSummary \<noteq> Some []
         then (s1\<lparr>trajectorySteps := trajectorySteps s1 @
                     [\<lparr>ts_screenshot = None, ts_text = reasoning,
                       ts_thoughts = thoughtSummary, ts_actions = [],
                       ts_result = [(''final'', JBool True)]\<rparr>]\<rparr>,
               [SaveTrajectory, ToSidepanel TRAJECTORY_UPDATED, status])
         else (s1, [status]))"

text \<open>\<open>runOneIteration\<close> from \<open>const candidate = response.candidates[0]\<close> on.\<close>

definition process_candidate ::
  "world \<Rightarrow> bool \<Rightarrow> candidate \<Rightarrow> agent_state
    \<Rightarrow> iteration_result \<times> agent_state \<times> event list" where
  "process_candidate w highlightMouse candidate s =
     (let s1 = s\<lparr>contents := addModelResponse candidate (contents s)\<rparr>;
          reasoning = getText candidate;
          thoughtSummary = extractThoughtSummary candidate;
          functionCalls = extractFunctionCalls candidate;
          shown = ToSidepanel (UPDATE_CONVERSATION ''model'' reasoning thoughtSummary functionCalls)
      in if functionCalls = [] \<and> (reasoning = None \<or> reasoning = Some [])
            \<and> isMalformedFunctionCall candidate
         then (CONTINUE, s1, [])
         else if functionCalls = [] then
           (case finish_without_calls reasoning thoughtSummary s1 of
              (s2, es) \<Rightarrow> (COMPLETE, s2, shown # es))
         else
           (case executeFunctionCalls w highlightMouse reasoning thoughtSummary 0
                   functionCalls [] s1 of
              (Awaiting, functionResponses, s2, es) \<Rightarrow> (Suspended, s2, shown # es)
            | (Raised message, functionResponses, s2, es) \<Rightarrow> (Thrown message, s2, shown # es)
            | (Denied, functionResponses, s2, es) \<Rightarrow> (COMPLETE, s2, shown # es)
            | (Stopped, functionResponses, s2, es) \<Rightarrow> (COMPLETE, s2, shown # es)
            | (Finished, functionResponses, s2, es) \<Rightarrow>
                if shouldStop w (length functionCalls) then (COMPLETE, s2, shown # es)
                else (CONTINUE,
                      s2\<lparr>contents := addFunctionResponses functionResponses (contents s2)\<rparr>,
                      shown # es)))"

definition runOneIteration ::
  "world \<Rightarrow> bool \<Rightarrow> agent_state \<Rightarrow> iteration_result \<times> agent_state \<times> event list" where
  "runOneIteration w highlightMouse s =
     (case getModelResponse (generate w) (contents s) of
        (Never, es) \<Rightarrow> (Suspended, s, es)
      | (Settled (Inl message), es) \<Rightarrow> (COMPLETE, s, es @ [ToSidepanel (ERROR message)])
      | (Settled (Inr None), es) \<Rightarrow>
          (Thrown ''Cannot read properties of undefined (reading 'candidates')'', s, es)
      | (Settled (Inr (Some response)), es) \<Rightarrow>
          (case candidates response of
             None \<Rightarrow> (COMPLETE, s, es @ [ToSidepanel (ERROR ''No response from model'')])
           | Some [] \<Rightarrow> (COMPLETE, s, es @ [ToSidepanel (ERROR ''No response from model'')])
           | Some (candidate # _) \<Rightarrow>
               (case process_candidate w highlightMouse candidate s of
                  (result, s', later) \<Rightarrow> (result, s', es @ later))))"

text \<open>
  The \<open>while\<close> loop of \<open>runAgentLoop\<close>, from iteration \<open>i\<close> on. \<open>worlds i\<close> is the
  surroundings of iteration \<open>i\<close>, \<open>stopBefore i\<close> the value of \<open>shouldStop\<close> read by the
  loop condition before iteration \<open>i\<close>. An exception that leaves \<open>runOneIteration\<close> is
  caught and reported. The loop need not end: the recursion is bounded by \<open>fuel\<close>, and
  running out of it is a result of its own.
\<close>

datatype loop_end = Ended | Hung | OutOfFuel

fun agent_while ::
  "nat \<Rightarrow> (nat \<Rightarrow> world) \<Rightarrow> (nat \<Rightarrow> bool) \<Rightarrow> bool \<Rightarrow> nat \<Rightarrow> agent_state
    \<Rightarrow> loop_end \<times> agent_state \<times> event list" where
  "agent_while 0 worlds stopBefore highlightMouse i s = (OutOfFuel, s, [])"
| "agent_while (Suc fuel) worlds stopBefore highlightMouse i s =
     (if stopBefore i then (Ended, s, [])
      else (case runOneIteration (worlds i) highlightMouse s of
          (COMPLETE, s', es) \<Rightarrow> (Ended, s', es)
        | (CONTINUE, s', es) \<Rightarrow>
            (case agent_while fuel worlds stopBefore highlightMouse (Suc i) s' of
               (end, s'', later) \<Rightarrow> (end, s'', es @ [Sleep 300] @ later))
        | (Suspended, s', es) \<Rightarrow> (Hung, s', es)
        | (Thrown message, s', es) \<Rightarrow> (Ended, s', es @ [ToSidepanel (ERROR message)])))"

text \<open>
  \<open>runAgentLoop(initialPrompt)\<close>, called while no loop is running: a prompt starts a
  new conversation; the loop runs; the \<open>finally\<close> block reports \<open>idle\<close> unless a stop
  was requested. \<open>stopAtEnd\<close> is the value of \<open>shouldStop\<close> read there.
\<close>

definition runAgentLoop ::
  "nat \<Rightarrow> (nat \<Rightarrow> world) \<Rightarrow> (nat \<Rightarrow> bool) \<Rightarrow> bool \<Rightarrow> bool \<Rightarrow> string option
    \<Rightarrow> agent_state \<Rightarrow> loop_end \<times> agent_state \<times> event list" where
  "runAgentLoop fuel worlds stopBefore stopAtEnd highlightMouse initialPrompt s =
     (let started = (initialPrompt \<noteq> None \<and> initialPrompt \<noteq> Some []);
          s1 = (if started
                then s\<lparr>contents := startConversation (the initialPrompt), finalReasoning := None\<rparr>
                else s);
          before = ToSidepanel (STATUS_UPDATE ''running'') #
                   (if started
                    then [SaveTrajectory,
                          ToSidepanel (UPDATE_CONVERSATION ''user'' initialPrompt None [])]
                    else [])
      in case agent_while fuel worlds stopBefore highlightMouse 0 s1 of
           (Ended, s', es) \<Rightarrow>
             (Ended, s',
              before @ es @ (if \<not> stopAtEnd then [ToSidepanel (STATUS_UPDATE ''idle'')] else []))
         | (other, s', es) \<Rightarrow> (other, s', before @ es))"


section \<open>The older agent loop (the service worker built on lib/api.js)\<close>

text \<open>
  The \<open>for\<close> loop over the function calls in the older \<open>runAgentLoop\<close>. A denied
  call is answered with a function response that says so, and the loop goes on to the
  next call.
\<close>

fun executeFunctionCalls_legacy ::
  "world \<Rightarrow> bool \<Rightarrow> nat \<Rightarrow> function_call list \<Rightarrow> part list
    \<Rightarrow> batch_end \<times> part list \<times> event list" where
  "executeFunctionCalls_legacy w highlightMouse k [] functionResponses =
     (Finished, functionResponses, [])"
| "executeFunctionCalls_legacy w highlightMouse k (fc # rest) functionResponses =
     (if shouldStop w k then (Stopped, functionResponses, [])
      else (case safety_gate w k fc of
          (Unanswered, asked) \<Rightarrow> (Awaiting, functionResponses, asked)
        | (Refused, asked) \<Rightarrow>
            (case executeFunctionCalls_legacy w highlightMouse (Suc k) rest
                    (functionResponses @
                       [buildFunctionResponse (fc_name fc)
                          [(''denied'', JBool True), (''reason'', JStr ''User denied action'')]
                          False]) of
               (end, functionResponses', later) \<Rightarrow> (end, functionResponses', asked @ later))
        | (Proceed safetyAcknowledgement, asked) \<Rightarrow>
            (let result = executeAction_legacy (browserAt w k) (fc_name fc) (fc_args fc)
                            highlightMouse
             in case executeFunctionCalls_legacy w highlightMouse (Suc k) rest
                       (functionResponses @
                          [buildFunctionResponse (fc_name fc) result safetyAcknowledgement]) of
                  (end, functionResponses', later) \<Rightarrow>
                    (end, functionResponses',
                     asked @ [ExecuteAction k fc, Sleep 200] @ later))))"

text \<open>
  The body of the \<open>while\<close> loop of the older \<open>runAgentLoop\<close> once \<open>callGeminiAPI\<close>
  has returned the parts of the reply. \<open>COMPLETE\<close> stands for leaving the loop with
  \<open>break\<close>, \<open>CONTINUE\<close> for reaching the end of the body. The single screenshot of
  the pass is \<open>captureScreenshot w n\<close> for a batch of \<open>n\<close> calls. The state is the
  conversation history.
\<close>

definition legacy_process_reply ::
  "world \<Rightarrow> bool \<Rightarrow> part list \<Rightarrow> content list
    \<Rightarrow> iteration_result \<times> content list \<times> event list" where
  "legacy_process_reply w highlightMouse ps conversationHistory =
     (let history1 = conversationHistory @ [\<lparr>c_role = ''model'', c_parts = Some ps\<rparr>];
          functionCalls = calls_of_parts ps;
          shown = ToSidepanel
            (UPDATE_CONVERSATION ''model'' (Some (extractText ps)) None functionCalls)
      in if functionCalls = [] then
           (COMPLETE, history1,
            [shown, ToSidepanel (STATUS_UPDATE
                      (if isWaitingForInput_api ps then ''waiting'' else ''idle''))])
         else
           (case executeFunctionCalls_legacy w highlightMouse 0 functionCalls [] of
              (Finished, functionResponses, done) \<Rightarrow>
                if shouldStop w (length functionCalls) then (COMPLETE, history1, shown # done)
                else
                  (case captureScreenshot w (length functionCalls) of
                     Inl message \<Rightarrow>
                       (Thrown message, history1,
                        shown # done @ [WaitForPageSettle, CaptureScreenshot])
                   | Inr newScreenshot \<Rightarrow>
                       (CONTINUE,
                        history1 @
                          [\<lparr>c_role = ''user'',
                            c_parts = Some (functionResponses @
                              [\<lparr>p_text = None, p_thought = False, p_functionCall = None,
                                p_functionResponse = None,
                                p_inlineData = Some \<lparr>mimeType = ''image/png'',
                                                      data = newScreenshot\<rparr>\<rparr>])\<rparr>],
                        shown # done @ [WaitForPageSettle, CaptureScreenshot, Sleep 300]))
            | (Awaiting, functionResponses, done) \<Rightarrow> (Suspended, history1, shown # done)
            | (other, functionResponses, done) \<Rightarrow> (COMPLETE, history1, shown # done)))"

definition legacy_iteration ::
  "world \<Rightarrow> bool \<Rightarrow> content list \<Rightarrow> iteration_result \<times> content list \<times> event list" where
  "legacy_iteration w highlightMouse conversationHistory =
     (case callGeminiAPI (fetch w) conversationHistory of
        (Never, es) \<Rightarrow> (Suspended, conversationHistory, es)
      | (Settled (Inl message), es) \<Rightarrow>
          (COMPLETE, conversationHistory, es @ [ToSidepanel (ERROR message)])
      | (Settled (Inr None), es) \<Rightarrow>
          (Thrown ''Cannot read properties of undefined (reading 'parts')'',
           conversationHistory, es)
      | (Settled (Inr (Some ps)), es) \<Rightarrow>
          (case legacy_process_reply w highlightMouse ps conversationHistory of
             (result, history', later) \<Rightarrow> (result, history', es @ later)))"


section \<open>Notions used to state the properties\<close>

text \<open>The effects that precede the first occurrence of an effect.\<close>

definition before :: "event \<Rightarrow> event list \<Rightarrow> event list" where
  "before e es = takeWhile (\<lambda>x. x \<noteq> e) es"

text \<open>The function response with which the older loop answers a denied call.\<close>

definition denied_response :: "function_call \<Rightarrow> part" where
  "denied_response fc =
     buildFunctionResponse (fc_name fc)
       [(''denied'', JBool True), (''reason'', JStr ''User denied action'')] False"

text \<open>A history records a denial if one of its function responses carries \<open>denied: true\<close>.\<close>

definition denial_recorded :: "content list \<Rightarrow> bool" where
  "denial_recorded history =
     list_ex (\<lambda>c. case c_parts c of
                None \<Rightarrow> False
              | Some ps \<Rightarrow>
                  list_ex (\<lambda>p. case p_functionResponse p of
                             None \<Rightarrow> False
                           | Some fr \<Rightarrow> get (fr_response fr) ''denied'' = Some (JBool True)) ps)
       history"

definition has_url :: "js_object \<Rightarrow> bool" where
  "has_url result = (get result ''url'' \<noteq> None)"

text \<open>The timer delays and the number of model requests among some effects.\<close>

definition delays :: "event list \<Rightarrow> nat list" where
  "delays es = List.map_filter (\<lambda>e. case e of Sleep d \<Rightarrow> Some d | _ \<Rightarrow> None) es"

definition requests :: "event list \<Rightarrow> nat" where
  "requests es = length (filter (\<lambda>e. case e of GenerateContent _ \<Rightarrow> True | _ \<Rightarrow> False) es)"

text \<open>The status updates among some effects.\<close>

definition statuses :: "event list \<Rightarrow> string list" where
  "statuses es =
     List.map_filter
       (\<lambda>e. case e of ToSidepanel (STATUS_UPDATE status) \<Rightarrow> Some status | _ \<Rightarrow> None) es"

text \<open>The number of turns with a screenshot that are more recent than turn \<open>i\<close>.\<close>

definition newer_screenshot_turns :: "content list \<Rightarrow> nat \<Rightarrow> nat" where
  "newer_screenshot_turns history i = length (filter hasScreenshot (drop (Suc i) history))"



text \<open>
  The question heuristic in the words of the specification: some line of the text
  ends in a question mark, or the text contains one of the phrases, letter case
  ignored. Lines end at line terminators.
\<close>

fun text_lines :: "string \<Rightarrow> string list" where
  "text_lines [] = [[]]"
| "text_lines (c # cs) =
     (if is_line_terminator c then [] # text_lines cs
      else (case text_lines cs of [] \<Rightarrow> [[c]] | l # ls \<Rightarrow> (c # l) # ls))"

definition spec_phrases :: "string list" where
  "spec_phrases =
     [''please confirm'', ''should I'', ''would you like'', ''which one'', ''do you want'',
      ''can you tell'', ''can you provide'', ''can you specify'', ''let me know'']"

definition equal_ignoring_case :: "string \<Rightarrow> string \<Rightarrow> bool" where
  "equal_ignoring_case a b = (map fold_case a = map fold_case b)"

definition spec_question_heuristic :: "string \<Rightarrow> bool" where
  "spec_question_heuristic t =
     ((\<exists>l \<in> set (text_lines t). l \<noteq> [] \<and> last l = CHR ''?'')
      \<or> (\<exists>phrase \<in> set spec_phrases. \<exists>pre occurrence post.
            t = pre @ occurrence @ post \<and> equal_ignoring_case occurrence phrase))"


section \<open>Example inputs\<close>

definition idle_handlers :: "string \<Rightarrow> handler" where
  "idle_handlers action args pg =
     (Returns [(''success'', JBool True), (''url'', JStr (href pg))], pg)"

definition example_page :: page where
  "example_page = \<lparr>href = ''https://example.com/'', assigned = []\<rparr>"

definition example_tab :: tab where
  "example_tab =
     \<lparr>tab_id = 1, tab_url = Some ''https://example.com/'', tab_status = ''complete''\<rparr>"

text \<open>A browser whose content script answers every message with the given reply.\<close>

definition relaying_browser :: "js_object \<Rightarrow> browser" where
  "relaying_browser reply =
     \<lparr>query1 = Some example_tab, send1 = Responds reply, query2 = Some example_tab,
      inject = None, send2 = Responds reply, query3 = Some example_tab\<rparr>"

text \<open>A browser without a content script, into which none can be injected.\<close>

definition closed_browser :: browser where
  "closed_browser =
     \<lparr>query1 = Some example_tab,
      send1 = Rejects ''Could not establish connection. Receiving end does not exist.'',
      query2 = Some example_tab, inject = Some ''Cannot access a chrome:// URL'',
      send2 = Rejects ''Could not establish connection. Receiving end does not exist.'',
      query3 = Some example_tab\<rparr>"

definition example_error :: api_error where
  "example_error =
     \<lparr>err_message = Some ''quota exceeded'', err_status = Some 429,
      err_statusText = Some ''Too Many Requests''\<rparr>"

definition always_failing :: "nat \<Rightarrow> generate_outcome option" where
  "always_failing attempt = Some (Fails example_error)"

text \<open>A model endpoint that fails four times and then answers.\<close>

definition recovering :: "nat \<Rightarrow> generate_outcome option" where
  "recovering attempt =
     (if attempt < 4 then Some (Fails example_error)
      else Some (Resolves \<lparr>candidates = Some []\<rparr>))"

text \<open>An endpoint that answers every request with the given HTTP status and no JSON body.\<close>

definition fetch_status :: "nat \<Rightarrow> nat \<Rightarrow> fetch_outcome option" where
  "fetch_status status attempt = Some (FetchResponds status None)"

definition call_part :: "string \<Rightarrow> js_object \<Rightarrow> part" where
  "call_part name args =
     \<lparr>p_text = None, p_thought = False, p_functionCall = Some (name, Some args),
      p_functionResponse = None, p_inlineData = None\<rparr>"

definition reply_with :: "part list \<Rightarrow> string \<Rightarrow> candidate" where
  "reply_with ps reason =
     \<lparr>cand_content = Some \<lparr>c_role = ''model'', c_parts = Some ps\<rparr>,
      cand_finishReason = Some reason\<rparr>"

text \<open>
  Candidates that end with a malformed function call: one without a content object,
  one whose content has no parts.
\<close>

definition malformed_candidate :: candidate where
  "malformed_candidate =
     \<lparr>cand_content = None, cand_finishReason = Some ''MALFORMED_FUNCTION_CALL''\<rparr>"

definition malformed_with_content :: candidate where
  "malformed_with_content = reply_with [] ''MALFORMED_FUNCTION_CALL''"

text \<open>Replies that consist of one text.\<close>

definition text_reply :: "string \<Rightarrow> candidate" where
  "text_reply t = reply_with [text_part t] ''STOP''"

text \<open>A click that the model flags for confirmation, and a navigation that it does not.\<close>

definition gated_click :: part where
  "gated_click =
     call_part ''click_at''
       [(''x'', JNum 412), (''y'', JNum 780),
        (''safety_decision'',
         JObj [(''decision'', JStr ''require_confirmation''),
               (''explanation'', JStr ''This submits a payment'')])]"

definition plain_navigate :: part where
  "plain_navigate = call_part ''navigate'' [(''url'', JStr ''weather.com'')]"

text \<open>
  Surroundings in which the model answers at once with the given candidate, every
  confirmation gets the given answer, nobody stops the agent, and the content script
  reports success.
\<close>

definition example_world :: "candidate \<Rightarrow> bool \<Rightarrow> world" where
  "example_world candidate allowed =
     \<lparr>generate = (\<lambda>attempt. Some (Resolves \<lparr>candidates = Some [candidate]\<rparr>)),
      fetch = (\<lambda>attempt. Some (FetchResponds 200
                 (Some \<lparr>body_error_message = None, body_candidates = Some [candidate]\<rparr>))),
      shouldStop = (\<lambda>k. False),
      safetyResponse = (\<lambda>k. Some allowed),
      browserAt = (\<lambda>k. relaying_browser
                     [(''success'', JBool True), (''url'', JStr ''https://example.com/'')]),
      captureScreenshot = (\<lambda>k. Inr ''iVBORw0KGgo''),
      getCurrentUrl = (\<lambda>k. ''https://example.com/'')\<rparr>"

text \<open>Surroundings in which the model endpoint fails at every attempt.\<close>

definition failing_world :: world where
  "failing_world = (example_world (reply_with [] ''STOP'') True)\<lparr>generate := always_failing\<rparr>"

definition example_state :: agent_state where
  "example_state =
     \<lparr>contents = startConversation ''check the weather'', finalReasoning = None,
      trajectorySteps = []\<rparr>"

text \<open>A turn that carries one function response with a screenshot.\<close>

definition screenshot_turn :: "string \<Rightarrow> string \<Rightarrow> content" where
  "screenshot_turn name shot =
     \<lparr>c_role = ''user'',
      c_parts = Some [response_part
        \<lparr>re_name = name, re_response = [(''url'', JStr ''https://example.com/'')],
         re_screenshot = shot\<rparr>]\<rparr>"

definition five_turns :: "content list" where
  "five_turns =
     [screenshot_turn ''navigate'' ''shot1'', screenshot_turn ''click_at'' ''shot2'',
      screenshot_turn ''type_text_at'' ''shot3'', screenshot_turn ''scroll_document'' ''shot4'',
      screenshot_turn ''click_at'' ''shot5'']"


section \<open>Properties of JavaScript arithmetic\<close>

text \<open>Rounding a significand moves it by at most one half.\<close>

lemma round_half_even_error: "\<bar>of_int (round_half_even x) - x\<bar> \<le> 1 / 2"
proof -
  have "of_int \<lfloor>x\<rfloor> \<le> x" "x < of_int \<lfloor>x\<rfloor> + 1" by linarith+
  then show ?thesis
    unfolding round_half_even_def Let_def by (auto simp: abs_le_iff)
qed

text \<open>The bit length brackets a positive integer between two powers of two, and the
  exponent does so for a rational.\<close>

lemma bitlen_positive: "0 < a \<Longrightarrow> 1 \<le> bitlen a"
  using bitlen_eq_zero_iff [of a] bitlen_nonneg [of a] by linarith

lemma bitlen_lower:
  assumes "0 < a"
  shows "(2::rat) powi (bitlen a - 1) \<le> of_int a"
proof -
  from bitlen_bounds [OF assms] have "(2::int) ^ nat (bitlen a - 1) \<le> a" ..
  then have "(of_int ((2::int) ^ nat (bitlen a - 1)) :: rat) \<le> of_int a"
    by (simp only: of_int_le_iff)
  with bitlen_positive [OF assms] show ?thesis
    by (simp add: power_int_def)
qed

lemma bitlen_upper:
  assumes "0 < a"
  shows "(of_int a :: rat) < 2 powi bitlen a"
proof -
  from bitlen_bounds [OF assms] have "a < (2::int) ^ nat (bitlen a)" ..
  then have "(of_int a :: rat) < of_int ((2::int) ^ nat (bitlen a))"
    by (simp only: of_int_less_iff)
  with bitlen_positive [OF assms] show ?thesis
    by (simp add: power_int_def)
qed

lemma exponent_bounds:
  assumes "x \<noteq> 0"
  shows "2 powi exponent x \<le> \<bar>x\<bar>" and "\<bar>x\<bar> < 2 powi (exponent x + 1)"
proof -
  obtain a b where q: "quotient_of \<bar>x\<bar> = (a, b)" by (cases "quotient_of \<bar>x\<bar>")
  then have b: "0 < b" and x: "\<bar>x\<bar> = of_int a / of_int b"
    using quotient_of_denom_pos [OF q] quotient_of_div [OF q] by simp_all
  from assms x b have a: "0 < a"
    by (metis abs_ge_zero assms of_int_pos zero_less_abs_iff zero_less_divide_iff of_int_0_less_iff not_less_iff_gr_or_eq of_int_0 divide_eq_0_iff)
  let ?k = "bitlen a - bitlen b"
  have B: "(0::rat) < of_int b" using b by simp
  have lo: "(2::rat) powi (?k - 1) \<le> \<bar>x\<bar>"
  proof -
    have "(2::rat) powi (?k - 1) = 2 powi (bitlen a - 1) / 2 powi bitlen b"
      by (simp add: power_int_diff)
    also have "\<dots> \<le> of_int a / 2 powi bitlen b"
      using bitlen_lower [OF a] by (simp add: divide_right_mono)
    also have "\<dots> \<le> of_int a / of_int b"
      using bitlen_upper [OF b] a B by (simp add: frac_le)
    finally show ?thesis by (simp add: x)
  qed
  have hi: "\<bar>x\<bar> < (2::rat) powi (?k + 1)"
  proof -
    have "of_int a / of_int b < (2::rat) powi bitlen a / of_int b"
      using bitlen_upper [OF a] B by (simp add: divide_strict_right_mono)
    also have "\<dots> \<le> 2 powi bitlen a / 2 powi (bitlen b - 1)"
      using bitlen_lower [OF b] by (simp add: frac_le)
    also have "\<dots> = 2 powi (?k + 1)"
      by (simp add: power_int_diff power_int_add)
    finally show ?thesis by (simp add: x)
  qed
  show "2 powi exponent x \<le> \<bar>x\<bar>"
    using lo by (simp add: exponent_def q Let_def)
  show "\<bar>x\<bar> < 2 powi (exponent x + 1)"
    using hi by (simp add: exponent_def q Let_def not_le)
qed

text \<open>
  In the range of the normal numbers, rounding to the nearest double changes a value
  by at most the fraction \<open>2 ^ -53\<close> of it.
\<close>

lemma nearest_double_error:
  assumes "2 powi (- 1022) \<le> \<bar>x\<bar>"
  shows "\<bar>nearest_double x - x\<bar> \<le> \<bar>x\<bar> / 2 ^ 53"
proof -
  define k where "k = max (exponent x) (- 1022)"
  define q :: rat where "q = 2 powi (k - 52)"
  define m where "m = round_half_even (x / q)"
  have "(0::rat) < 2 powi (- 1022)" by simp
  with assms have "x \<noteq> 0" by auto
  then have "2 powi exponent x \<le> \<bar>x\<bar>" by (rule exponent_bounds)
  with assms have k: "2 powi k \<le> \<bar>x\<bar>" by (simp add: k_def max_def)
  have q: "0 < q" by (simp add: q_def)
  have "\<bar>of_int m * q - x\<bar> = \<bar>of_int m - x / q\<bar> * q"
    using q by (simp add: abs_mult [symmetric] field_simps del: abs_mult)
  also have "\<dots> \<le> 1 / 2 * q"
    using round_half_even_error [of "x / q"] q by (simp add: m_def mult_right_mono)
  also have "\<dots> = 2 powi k / 2 ^ 53"
    by (simp add: q_def power_int_diff)
  also have "\<dots> \<le> \<bar>x\<bar> / 2 ^ 53"
    using k by (simp add: divide_right_mono)
  finally show ?thesis
    by (simp add: nearest_double_def k_def q_def m_def Let_def)
qed

text \<open>Values of moderate size stay finite.\<close>

lemma to_double_zero: "to_double 0 = Some 0"
  by (simp add: to_double_def nearest_double_def round_half_even_def)

lemma to_double_error:
  assumes "1 / 2 ^ 13 \<le> \<bar>x\<bar>" and "\<bar>x\<bar> \<le> 2 ^ 80"
  shows "\<exists>d. to_double x = Some d \<and> \<bar>d - x\<bar> \<le> \<bar>x\<bar> / 2 ^ 53"
proof -
  define d where "d = nearest_double x"
  have "(2::rat) powi (- 1022) \<le> 2 powi (- 13)"
    by (rule power_int_increasing) simp_all
  also have "\<dots> = 1 / 2 ^ 13" by (simp add: power_int_minus field_simps)
  finally have "2 powi (- 1022) \<le> \<bar>x\<bar>" using assms(1) by simp
  then have e: "\<bar>d - x\<bar> \<le> \<bar>x\<bar> / 2 ^ 53"
    unfolding d_def by (rule nearest_double_error)
  have "\<bar>d\<bar> \<le> \<bar>x\<bar> + \<bar>x\<bar> / 2 ^ 53" using e by linarith
  also have "\<dots> \<le> 2 * \<bar>x\<bar>" by simp
  also have "\<dots> \<le> 2 ^ 81" using assms(2) by simp
  finally have d: "\<bar>d\<bar> \<le> 2 powi 81" by simp
  have "d = 0 \<or> exponent d < 1024"
  proof (rule disjCI, rule ccontr)
    assume "d \<noteq> 0" and "\<not> exponent d < 1024"
    then have "(2::rat) powi 1024 \<le> 2 powi exponent d"
      by (intro power_int_increasing) simp_all
    also have "\<dots> \<le> \<bar>d\<bar>" using \<open>d \<noteq> 0\<close> by (rule exponent_bounds)
    also note d
    finally have "(2::rat) powi 1024 \<le> 2 powi 81" .
    moreover have "(2::rat) powi 81 < 2 powi 1024"
      by (rule power_int_strict_increasing) simp_all
    ultimately show False by simp
  qed
  with e show ?thesis by (auto simp: to_double_def d_def)
qed

text \<open>
  A quotient followed by a product, which is what both directions of the mapper
  compute: the result is finite and within the fraction \<open>2 ^ -51\<close> of the exact value.
\<close>

lemma div_mul_error:
  assumes b: "b \<noteq> 0" and c: "1 \<le> \<bar>c\<bar>" "\<bar>c\<bar> \<le> 2 ^ 12"
    and s: "a = 0 \<or> 1 / 2 ^ 12 \<le> \<bar>a / b\<bar> \<and> \<bar>a / b\<bar> \<le> 2 ^ 60"
  shows "\<exists>r. Option.bind (js_div a b) (\<lambda>q. js_mul q c) = Some r
             \<and> \<bar>r - a / b * c\<bar> \<le> \<bar>a / b * c\<bar> / 2 ^ 51"
proof (cases "a = 0")
  case True
  with b show ?thesis by (simp add: js_div_def js_mul_def to_double_zero)
next
  case False
  define s where "s = a / b"
  from False s have s1: "1 / 2 ^ 12 \<le> \<bar>s\<bar>" and s2: "\<bar>s\<bar> \<le> 2 ^ 60" by (simp_all add: s_def)
  from s1 s2 obtain q where q: "to_double s = Some q" "\<bar>q - s\<bar> \<le> \<bar>s\<bar> / 2 ^ 53"
    using to_double_error [of s] by auto
  have "\<bar>s\<bar> / 2 ^ 53 \<le> \<bar>s\<bar> / 2" by simp
  with q(2) have qs: "\<bar>q\<bar> \<le> 2 * \<bar>s\<bar>" and sq: "\<bar>s\<bar> \<le> 2 * \<bar>q\<bar>" by linarith+
  have lo: "1 / 2 ^ 13 \<le> \<bar>q * c\<bar>"
  proof -
    have "1 / 2 ^ 13 \<le> \<bar>q\<bar>" using sq s1 by simp
    also have "\<dots> \<le> \<bar>q\<bar> * \<bar>c\<bar>" using c(1) by (simp add: mult_le_cancel_left1)
    finally show ?thesis by (simp add: abs_mult)
  qed
  have hi: "\<bar>q * c\<bar> \<le> 2 ^ 80"
  proof -
    have "\<bar>q\<bar> * \<bar>c\<bar> \<le> 2 ^ 61 * 2 ^ 12"
      using qs s2 c(2) by (intro mult_mono) simp_all
    then show ?thesis by (simp add: abs_mult)
  qed
  from lo hi obtain r where r: "to_double (q * c) = Some r" "\<bar>r - q * c\<bar> \<le> \<bar>q * c\<bar> / 2 ^ 53"
    using to_double_error [of "q * c"] by auto
  have "\<bar>q\<bar> * \<bar>c\<bar> \<le> (2 * \<bar>s\<bar>) * \<bar>c\<bar>"
    using qs by (rule mult_right_mono) simp
  then have "\<bar>q * c\<bar> \<le> 2 * \<bar>s * c\<bar>"
    by (simp add: abs_mult)
  with r(2) have r': "\<bar>r - q * c\<bar> \<le> 2 * \<bar>s * c\<bar> / 2 ^ 53" by simp
  have "\<bar>q * c - s * c\<bar> = \<bar>q - s\<bar> * \<bar>c\<bar>"
    by (simp add: abs_mult [symmetric] left_diff_distrib del: abs_mult)
  also have "\<dots> \<le> \<bar>s\<bar> / 2 ^ 53 * \<bar>c\<bar>" using q(2) by (rule mult_right_mono) simp
  finally have q': "\<bar>q * c - s * c\<bar> \<le> \<bar>s * c\<bar> / 2 ^ 53" by (simp add: abs_mult)
  from r' q' have "\<bar>r - s * c\<bar> \<le> 3 * \<bar>s * c\<bar> / 2 ^ 53" by linarith
  also have "\<dots> \<le> \<bar>s * c\<bar> / 2 ^ 51" by simp
  finally have "\<bar>r - s * c\<bar> \<le> \<bar>s * c\<bar> / 2 ^ 51" .
  with b q(1) r(1) show ?thesis by (simp add: js_div_def js_mul_def s_def)
qed


section \<open>Properties of the coordinate mapper\<close>

lemma Math_round_error: "\<bar>of_int (Math_round x) - x\<bar> \<le> 1 / 2"
  unfolding Math_round_def by linarith

lemma bind_map_option:
  "Option.bind m (\<lambda>q. map_option f (g q)) = map_option f (Option.bind m g)"
  by (cases m) simp_all

lemma scale_error:
  assumes "0 < c" and "\<bar>u - v\<bar> \<le> w"
  shows "\<bar>u * c - v * c\<bar> \<le> w * (c::rat)"
proof -
  have "u * c - v * c = (u - v) * c" by (simp add: left_diff_distrib)
  then have "\<bar>u * c - v * c\<bar> = \<bar>u - v\<bar> * \<bar>c\<bar>" by (simp only: abs_mult)
  also have "\<dots> = \<bar>u - v\<bar> * c" using assms(1) by simp
  also have "\<dots> \<le> w * c" using assms by (simp add: mult_right_mono)
  finally show ?thesis .
qed

text \<open>
  The round trip on one axis. The computed values stay within \<open>2 ^ -18\<close> of the exact
  ones, which leaves the bound of the exact round trip, \<open>1 / 2 + e / 2000\<close>, below 2 up
  to an extent of 2999; on an extent of 3000 the denormalised value is three times the
  normalised one, an integer within 1 of the pixel.
\<close>

lemma round_trip_bound:
  assumes p: "\<bar>p\<bar> \<le> 2 ^ 32" and e: "0 < e" "e \<le> 3000"
  shows "\<exists>n d. normalizeX p e = Some n \<and> denormalizeX n e = Some d \<and> \<bar>d - p\<bar> \<le> 1"
proof -
  define P :: rat where "P = of_int p"
  define E :: rat where "E = of_int e"
  have E: "1 \<le> E" "E \<le> 3000" "E \<noteq> 0" "0 < E / 1000" using e by (simp_all add: E_def)
  have P: "\<bar>P\<bar> \<le> 2 ^ 32"
  proof -
    from p have "(of_int \<bar>p\<bar> :: rat) \<le> of_int (2 ^ 32)" by (simp only: of_int_le_iff)
    then show ?thesis by (simp add: P_def)
  qed
  have "P = 0 \<or> 1 / 2 ^ 12 \<le> \<bar>P / E\<bar> \<and> \<bar>P / E\<bar> \<le> 2 ^ 60"
  proof (cases "p = 0")
    case True
    then show ?thesis by (simp add: P_def)
  next
    case False
    then have "1 \<le> \<bar>p\<bar>" by simp
    then have "(of_int 1 :: rat) \<le> of_int \<bar>p\<bar>" by (simp only: of_int_le_iff)
    then have one: "1 \<le> \<bar>P\<bar>" by (simp add: P_def)
    have absE: "\<bar>E\<bar> = E" using E by simp
    have eq: "\<bar>P / E\<bar> = \<bar>P\<bar> / E" by (simp only: abs_divide absE)
    have lo: "1 / 2 ^ 12 \<le> \<bar>P\<bar> / E" using one E by (simp add: field_simps)
    have hi: "\<bar>P\<bar> / E \<le> 2 ^ 60" using P E by (simp add: field_simps)
    show ?thesis unfolding eq using lo hi by blast
  qed
  from div_mul_error [OF E(3) _ _ this, of 1000]
  obtain b where b: "Option.bind (js_div P E) (\<lambda>q. js_mul q 1000) = Some b"
      "\<bar>b - P / E * 1000\<bar> \<le> \<bar>P / E * 1000\<bar> / 2 ^ 51"
    by auto
  define n where "n = Math_round b"
  define N :: rat where "N = of_int n"
  have norm: "normalizeX p e = Some n"
    by (simp add: normalizeX_def NORMALIZED_MAX_def bind_map_option b(1) n_def
        flip: P_def E_def)
  have eq1: "P / E * 1000 * (E / 1000) = P" using E by simp
  have absE: "\<bar>E\<bar> = E" using E by simp
  have "\<bar>P / E * 1000\<bar> = \<bar>P\<bar> / E * 1000" by (simp only: abs_mult abs_divide absE abs_numeral)
  then have eq2: "\<bar>P / E * 1000\<bar> / 2 ^ 51 * (E / 1000) = \<bar>P\<bar> / 2 ^ 51" using E by simp
  from scale_error [OF E(4) b(2)] have bP: "\<bar>b * (E / 1000) - P\<bar> \<le> \<bar>P\<bar> / 2 ^ 51"
    unfolding eq1 eq2 .
  have "\<bar>N - b\<bar> \<le> 1 / 2" unfolding N_def n_def by (rule Math_round_error)
  with E(4) have "\<bar>N * (E / 1000) - b * (E / 1000)\<bar> \<le> 1 / 2 * (E / 1000)"
    by (rule scale_error)
  then have yb: "\<bar>N / 1000 * E - b * (E / 1000)\<bar> \<le> E / 2000" by simp
  have small: "\<bar>P\<bar> / 2 ^ 51 \<le> 1 / 2 ^ 19" using P by simp
  from yb bP small have yP: "\<bar>N / 1000 * E - P\<bar> \<le> E / 2000 + 1 / 2 ^ 19" by linarith
  with P E have y: "\<bar>N / 1000 * E\<bar> \<le> 2 ^ 33" by simp
  have "N = 0 \<or> 1 / 2 ^ 12 \<le> \<bar>N / 1000\<bar> \<and> \<bar>N / 1000\<bar> \<le> 2 ^ 60"
  proof (cases "n = 0")
    case True
    then show ?thesis by (simp add: N_def)
  next
    case False
    then have "1 \<le> \<bar>n\<bar>" by simp
    then have "(of_int 1 :: rat) \<le> of_int \<bar>n\<bar>" by (simp only: of_int_le_iff)
    then have one: "1 \<le> \<bar>N\<bar>" by (simp add: N_def)
    have "\<bar>N / 1000\<bar> \<le> \<bar>N / 1000\<bar> * E" using E by (simp add: mult_le_cancel_left1)
    also have "\<dots> = \<bar>N / 1000 * E\<bar>" using E by (simp add: abs_mult)
    finally have "\<bar>N / 1000\<bar> \<le> 2 ^ 60" using y by simp
    with one show ?thesis by simp
  qed
  from div_mul_error [of 1000 E N, OF _ _ _ this]
  obtain dd where dd: "Option.bind (js_div N 1000) (\<lambda>q. js_mul q E) = Some dd"
      "\<bar>dd - N / 1000 * E\<bar> \<le> \<bar>N / 1000 * E\<bar> / 2 ^ 51"
    using E by auto
  define d where "d = Math_round dd"
  define D :: rat where "D = of_int d"
  have denorm: "denormalizeX n e = Some d"
    by (simp add: denormalizeX_def NORMALIZED_MAX_def bind_map_option dd(1) d_def
        flip: N_def E_def)
  have Ddd: "\<bar>D - dd\<bar> \<le> 1 / 2" unfolding D_def d_def by (rule Math_round_error)
  from dd(2) y have ddy: "\<bar>dd - N / 1000 * E\<bar> \<le> 1 / 262144" by simp
  have yP': "\<bar>N / 1000 * E - P\<bar> < 3 / 2 - 1 / 131072"
  proof (cases "e = 3000")
    case True
    then have "N / 1000 * E = of_int (3 * n)" by (simp add: N_def E_def)
    with yP True have "\<bar>(of_int (3 * n - p) :: rat)\<bar> < 2" by (simp add: P_def E_def)
    then have "(of_int \<bar>3 * n - p\<bar> :: rat) < of_int 2" by simp
    then have "\<bar>3 * n - p\<bar> < 2" by (simp only: of_int_less_iff)
    then have "\<bar>3 * n - p\<bar> \<le> 1" by simp
    then have "(of_int \<bar>3 * n - p\<bar> :: rat) \<le> of_int 1" by (simp only: of_int_le_iff)
    then have "\<bar>N / 1000 * E - P\<bar> \<le> 1"
      using True by (simp add: N_def E_def P_def)
    then show ?thesis by simp
  next
    case False
    with e have "e \<le> 2999" by simp
    then have "(of_int e :: rat) \<le> of_int 2999" by (simp only: of_int_le_iff)
    then have "E \<le> 2999" by (simp add: E_def)
    with yP show ?thesis by simp
  qed
  from Ddd ddy yP' have "\<bar>D - P\<bar> < 2" by linarith
  then have "\<bar>(of_int (d - p) :: rat)\<bar> < 2" by (simp add: D_def P_def)
  then have "(of_int \<bar>d - p\<bar> :: rat) < of_int 2" by simp
  then have "\<bar>d - p\<bar> < 2" by (simp only: of_int_less_iff)
  then have "\<bar>d - p\<bar> \<le> 1" by simp
  with norm denorm show ?thesis by simp
qed

text \<open>
  The rounding of the quotient and of the product is visible: the exact values of
  \<open>565 / 1000 * 900\<close> and of \<open>402 / 800 * 1000\<close> end in one half, the computed ones lie
  just below, and \<open>Math.round\<close> goes down.
\<close>

lemma mapper_rounds_before_Math_round:
  "denormalizeX 565 900 = Some 508 \<and> normalizeX 402 800 = Some 502
   \<and> Math_round (565 / 1000 * 900) = 509 \<and> Math_round (402 / 800 * 1000) = 503"
  by code_simp

text \<open>
  Claim C9, as stated (every pixel coordinate, every extent \<open>e > 0\<close>), fails on a viewport
  3840 pixels wide: pixel 2 is normalised to 1, and 1 is denormalised to pixel 4. It
  also fails for a pixel coordinate that is large for the 53 bits of a significand: on
  an extent of 2999, pixel 562949953421314 comes back as 562949953421316.
\<close>

theorem coordinate_round_trip_counterexample:
  "normalizeX 2 3840 = Some 1 \<and> denormalizeX 1 3840 = Some 4 \<and> \<not> \<bar>4 - 2\<bar> \<le> (1::int)
   \<and> normalizeX 562949953421314 2999 = Some 187712555325547
   \<and> denormalizeX 187712555325547 2999 = Some 562949953421316
   \<and> \<not> \<bar>562949953421316 - 562949953421314\<bar> \<le> (1::int)"
  by code_simp

text \<open>
  Claim C9, amended: for every integer pixel coordinate \<open>p\<close> of magnitude at most
  \<open>2 ^ 32\<close> and every integer extent \<open>0 < e \<le> 3000\<close>, normalising \<open>p\<close> and denormalising
  the result both give a finite number, and the pixel that comes back is within 1 of
  \<open>p\<close>, on either axis.
\<close>

theorem coordinate_round_trip:
  assumes "\<bar>p\<bar> \<le> 2 ^ 32" and "0 < e" and "e \<le> 3000"
  shows "(\<exists>n d. normalizeX p e = Some n \<and> denormalizeX n e = Some d \<and> \<bar>d - p\<bar> \<le> 1)
       \<and> (\<exists>n d. normalizeY p e = Some n \<and> denormalizeY n e = Some d \<and> \<bar>d - p\<bar> \<le> 1)"
proof -
  have "normalizeY p e = normalizeX p e" "\<And>n. denormalizeY n e = denormalizeX n e"
    by (simp_all add: normalizeX_def normalizeY_def denormalizeX_def denormalizeY_def)
  with round_trip_bound [OF assms] show ?thesis by simp
qed

theorem coordinate_round_trip_witness:
  "\<bar>412\<bar> \<le> (2 ^ 32 :: int) \<and> (0::int) < 1280 \<and> (1280::int) \<le> 3000
   \<and> (\<exists>n d. normalizeX 412 1280 = Some n \<and> denormalizeX n 1280 = Some d \<and> \<bar>d - 412\<bar> \<le> 1)
   \<and> (\<exists>n d. normalizeY 412 1280 = Some n \<and> denormalizeY n 1280 = Some d \<and> \<bar>d - 412\<bar> \<le> 1)"
  using coordinate_round_trip [of 412 1280] by simp

section \<open>Properties of the navigate handler\<close>

lemma startsWith_prefix: "startsWith s p \<longleftrightarrow> prefix p s"
  by (induction s p rule: startsWith.induct) auto




text \<open>A \<open>url\<close> that is not a string makes the handler throw; the listener replies with
  the error and nothing is assigned to the page location.\<close>

lemma navigate_non_string_url:
  "on_EXECUTE_ACTION idle_handlers ''navigate'' [(''url'', JNum 80)] example_page
     = ([(''success'', JBool False), (''error'', JStr ''url.startsWith is not a function'')],
        example_page)"
  by (simp add: on_EXECUTE_ACTION_def actionHandlers_def navigate_def get_def)


section \<open>Properties of the action executor\<close>

text \<open>
  Claim C8 asks for a \<open>url\<close> in every result, also in the error for an unknown action.
  For a function call whose name is not an action, here \<open>double_click\<close>, the listener
  of the content script replies without a \<open>url\<close>. \<open>executeAction\<close> returns the reply as it
  is, in src/background/service-worker.js and in the older service worker alike, and
  \<open>buildFunctionResponse\<close> of lib/api.js copies it, so that the function response
  carries no \<open>url\<close> either. Every handler of the table sets the field, and so does
  every failure that \<open>executeAction\<close> of src/background/service-worker.js builds itself.
\<close>

theorem executeAction_unknown_action_without_url:
  "fst (on_EXECUTE_ACTION idle_handlers ''double_click'' [] example_page)
     = [(''success'', JBool False), (''error'', JStr ''Unknown action: double_click'')]
   \<and> executeAction
        (relaying_browser (fst (on_EXECUTE_ACTION idle_handlers ''double_click'' [] example_page)))
        ''double_click'' [] False
     = [(''success'', JBool False), (''error'', JStr ''Unknown action: double_click'')]
   \<and> \<not> has_url (executeAction
        (relaying_browser (fst (on_EXECUTE_ACTION idle_handlers ''double_click'' [] example_page)))
        ''double_click'' [] False)
   \<and> executeAction_legacy
        (relaying_browser (fst (on_EXECUTE_ACTION idle_handlers ''double_click'' [] example_page)))
        ''double_click'' [] False
     = [(''success'', JBool False), (''error'', JStr ''Unknown action: double_click'')]
   \<and> map_option fr_response (p_functionResponse (buildFunctionResponse ''double_click''
        (executeAction_legacy
          (relaying_browser (fst (on_EXECUTE_ACTION idle_handlers ''double_click'' [] example_page)))
          ''double_click'' [] False) False))
     = Some [(''success'', JBool False), (''error'', JStr ''Unknown action: double_click'')]"
  by (simp add: on_EXECUTE_ACTION_def actionHandlers_def dom_actions_def Object_prototype_names_def
      executeAction_def executeAction_legacy_def buildFunctionResponse_def
      first_attempt_def relaying_browser_def has_url_def get_def)

text \<open>In the older service worker a failed injection gives a result without \<open>url\<close>.\<close>

lemma executeAction_legacy_injection_failure:
  "executeAction_legacy closed_browser ''click_at'' [] False
     = [(''success'', JBool False),
        (''error'', JStr ''Failed to inject content script: Cannot access a chrome:// URL'')]
   \<and> \<not> has_url (executeAction_legacy closed_browser ''click_at'' [] False)"
  by (simp add: executeAction_legacy_def first_attempt_def inject_and_retry_def
      closed_browser_def has_url_def get_def)

text \<open>
  What \<open>executeAction\<close> of src/background/service-worker.js returns in general: a reply
  of the content script handed on unchanged, or the \<open>wait_5_seconds\<close> result, which
  carries the \<open>url\<close> of the active tab when the tab has one, or a failure built by the
  executor, which always carries a \<open>url\<close> (the URL of the active tab or the empty
  string). The \<open>response\<close> object that \<open>runOneIteration\<close> builds from a result always
  contains a \<open>url\<close>.
\<close>

lemma executeAction_url:
  "((\<exists>reply. (send1 b = Responds reply \<or> send2 b = Responds reply)
        \<and> executeAction b action args highlightMouse = reply)
    \<or> (\<exists>tb. query1 b = Some tb \<and> action = ''wait_5_seconds''
        \<and> get (executeAction b action args highlightMouse) ''success'' = Some (JBool True)
        \<and> get (executeAction b action args highlightMouse) ''waited'' = Some (JNum 5000)
        \<and> get (executeAction b action args highlightMouse) ''url''
            = map_option JStr (tab_url tb))
    \<or> (get (executeAction b action args highlightMouse) ''success'' = Some (JBool False)
        \<and> get (executeAction b action args highlightMouse) ''url''
            = Some (JStr (url_or_empty (query3 b)))))
   \<and> has_url (build_response result currentUrl safetyAcknowledgement)"
proof
  show "(\<exists>reply. (send1 b = Responds reply \<or> send2 b = Responds reply)
        \<and> executeAction b action args highlightMouse = reply)
    \<or> (\<exists>tb. query1 b = Some tb \<and> action = ''wait_5_seconds''
        \<and> get (executeAction b action args highlightMouse) ''success'' = Some (JBool True)
        \<and> get (executeAction b action args highlightMouse) ''waited'' = Some (JNum 5000)
        \<and> get (executeAction b action args highlightMouse) ''url''
            = map_option JStr (tab_url tb))
    \<or> (get (executeAction b action args highlightMouse) ''success'' = Some (JBool False)
        \<and> get (executeAction b action args highlightMouse) ''url''
            = Some (JStr (url_or_empty (query3 b))))"
    by (auto simp: executeAction_def first_attempt_def inject_and_retry_def get_def
        split: option.splits send_outcome.splits)
  show "has_url (build_response result currentUrl safetyAcknowledgement)"
    by (cases "get result ''url''") (auto simp: build_response_def has_url_def get_def)
qed

lemma executeAction_url_example:
  "get (executeAction closed_browser ''click_at'' [] False) ''url''
     = Some (JStr ''https://example.com/'')
   \<and> has_url (build_response
        [(''success'', JBool False), (''error'', JStr ''Unknown action: double_click'')]
        ''https://example.com/'' False)"
  using executeAction_url [of closed_browser "''click_at''" "[]" False
      "[(''success'', JBool False), (''error'', JStr ''Unknown action: double_click'')]"
      "''https://example.com/''" False]
  by (simp add: executeAction_def first_attempt_def inject_and_retry_def closed_browser_def
      example_tab_def url_or_empty_def get_def)

section \<open>Properties of screenshot pruning\<close>

lemma not_screenshot_strip_part: "\<not> screenshot_part (strip_part p)"
  by (auto simp: screenshot_part_def strip_part_def split: option.splits)

lemma not_hasScreenshot_strip: "\<not> hasScreenshot (strip_content c)"
  by (auto simp: hasScreenshot_def strip_content_def list_ex_iff not_screenshot_strip_part
      split: option.splits)



lemma length_cleanup_scan: "length (cleanup_scan found cs) = length cs"
  by (induction cs arbitrary: found) auto

lemma cleanup_scan_nth:
  "i < length cs \<Longrightarrow>
   cleanup_scan found cs ! i =
     (if hasScreenshot (cs ! i)
         \<and> MAX_RECENT_TURN_WITH_SCREENSHOTS \<le> found + length (filter hasScreenshot (take i cs))
      then strip_content (cs ! i) else cs ! i)"
proof (induction cs arbitrary: found i)
  case Nil
  then show ?case by simp
next
  case (Cons c cs)
  show ?case
  proof (cases i)
    case 0
    then show ?thesis by auto
  next
    case (Suc j)
    with Cons.prems have j: "j < length cs" by simp
    show ?thesis using Cons.IH [OF j] Suc by auto
  qed
qed

text \<open>A second scan that starts from a smaller count changes nothing.\<close>

lemma cleanup_scan_idem:
  "m \<le> n \<Longrightarrow> cleanup_scan m (cleanup_scan n cs) = cleanup_scan n cs"
proof (induction cs arbitrary: m n)
  case Nil
  then show ?case by simp
next
  case (Cons c cs)
  then show ?case
    by (auto simp: MAX_RECENT_TURN_WITH_SCREENSHOTS_def not_hasScreenshot_strip)
qed


lemma cleanup_nth:
  assumes "i < length cs"
  shows "cleanupOldScreenshots cs ! i =
     (if hasScreenshot (cs ! i) \<and> 3 \<le> newer_screenshot_turns cs i
      then strip_content (cs ! i) else cs ! i)"
proof -
  let ?j = "length cs - Suc i"
  have j: "?j < length (rev cs)" using assms by simp
  have t: "take ?j (rev cs) = rev (drop (Suc i) cs)"
    using assms by (simp add: take_rev)
  have r: "rev cs ! ?j = cs ! i" using assms by (simp add: rev_nth)
  have "cleanupOldScreenshots cs ! i = cleanup_scan 0 (rev cs) ! ?j"
    using assms by (simp add: cleanupOldScreenshots_def rev_nth length_cleanup_scan)
  also have "\<dots> = (if hasScreenshot (cs ! i) \<and> 3 \<le> newer_screenshot_turns cs i
      then strip_content (cs ! i) else cs ! i)"
    unfolding cleanup_scan_nth [OF j] t r
    by (simp add: newer_screenshot_turns_def MAX_RECENT_TURN_WITH_SCREENSHOTS_def
        flip: rev_filter)
  finally show ?thesis .
qed


lemma five_turns_screenshots:
  "hasScreenshot (five_turns ! 0)" "hasScreenshot (five_turns ! Suc 0)"
  "hasScreenshot (five_turns ! 2)" "hasScreenshot (five_turns ! 3)"
  "hasScreenshot (five_turns ! 4)" "length five_turns = 5"
  "newer_screenshot_turns five_turns 0 = 4" "newer_screenshot_turns five_turns (Suc 0) = 3"
  "newer_screenshot_turns five_turns 2 = 2" "newer_screenshot_turns five_turns 3 = 1"
  "newer_screenshot_turns five_turns 4 = 0"
  by code_simp+



text \<open>Only function responses named in the vocabulary are touched: one under another
  name keeps its image data, also in a turn that is pruned.\<close>

lemma strip_part_other_name:
  "p_functionResponse p = Some fr \<Longrightarrow> fr_name fr \<notin> set PREDEFINED_COMPUTER_USE_FUNCTIONS
     \<Longrightarrow> strip_part p = p"
  by (simp add: strip_part_def)

text \<open>
  Claim C6: pruning a second time, with no turn added in between, leaves the history
  as the first pruning left it.
\<close>

theorem screenshot_pruning_idempotent:
  "cleanupOldScreenshots (cleanupOldScreenshots history) = cleanupOldScreenshots history"
  by (simp add: cleanupOldScreenshots_def cleanup_scan_idem)

theorem screenshot_pruning_idempotent_witness:
  "cleanupOldScreenshots (cleanupOldScreenshots five_turns) = cleanupOldScreenshots five_turns
   \<and> cleanupOldScreenshots five_turns \<noteq> five_turns"
proof
  show "cleanupOldScreenshots (cleanupOldScreenshots five_turns) = cleanupOldScreenshots five_turns"
    using screenshot_pruning_idempotent [of five_turns] .
  have "hasScreenshot (five_turns ! 0)" by (rule five_turns_screenshots)
  moreover have "\<not> hasScreenshot (cleanupOldScreenshots five_turns ! 0)"
    by (simp add: cleanup_nth five_turns_screenshots not_hasScreenshot_strip)
  ultimately show "cleanupOldScreenshots five_turns \<noteq> five_turns" by metis
qed


section \<open>Properties of the model gateway\<close>

lemma delays_simps:
  "delays [] = []" "delays (Sleep d # es) = d # delays es"
  "delays (GenerateContent c # es) = delays es"
  by (simp_all add: delays_def List.map_filter_simps)

lemma requests_simps:
  "requests [] = 0" "requests (Sleep d # es) = requests es"
  "requests (GenerateContent c # es) = Suc (requests es)"
  by (simp_all add: requests_def)

lemma example_error_message:
  "enhanced_message example_error = ''[429] quota exceeded (Too Many Requests)''"
  by code_simp

text \<open>Attempts that fail until attempt \<open>k\<close> succeeds.\<close>

lemma retry_success:
  assumes "attempt + n = k" "k < maxRetries"
    and "\<forall>a. attempt \<le> a \<and> a < k \<longrightarrow> (\<exists>e. gen a = Some (Fails e))"
    and "gen k = Some (Resolves r)"
  shows "getModelResponse_from gen cs attempt =
    (Settled (Inr (Some r)),
     concat (map (\<lambda>a. [GenerateContent cs, Sleep (baseDelayMs * 2 ^ a)]) [attempt..<k])
       @ [GenerateContent cs])"
  using assms
proof (induction n arbitrary: attempt)
  case 0
  then show ?case by (subst getModelResponse_from.simps) simp
next
  case (Suc n)
  from Suc.prems have lt: "attempt < k" by simp
  with Suc.prems obtain e where e: "gen attempt = Some (Fails e)" by auto
  have IH: "getModelResponse_from gen cs (attempt + 1) =
    (Settled (Inr (Some r)),
     concat (map (\<lambda>a. [GenerateContent cs, Sleep (baseDelayMs * 2 ^ a)]) [attempt + 1..<k])
       @ [GenerateContent cs])"
    using Suc.IH [of "attempt + 1"] Suc.prems by simp
  have ne: "attempt \<noteq> maxRetries - 1" "attempt < maxRetries" using lt Suc.prems by simp_all
  show ?case
    using e ne IH lt
    by (subst getModelResponse_from.simps) (simp add: upt_conv_Cons)
qed

text \<open>Attempts that all fail.\<close>

lemma retry_exhausted:
  assumes "attempt + n = maxRetries - 1"
    and "\<forall>a. attempt \<le> a \<and> a < maxRetries - 1 \<longrightarrow> (\<exists>e. gen a = Some (Fails e))"
    and "gen (maxRetries - 1) = Some (Fails e)"
  shows "getModelResponse_from gen cs attempt =
    (Settled (Inl (enhanced_message e)),
     concat (map (\<lambda>a. [GenerateContent cs, Sleep (baseDelayMs * 2 ^ a)])
               [attempt..<maxRetries - 1])
       @ [GenerateContent cs])"
  using assms
proof (induction n arbitrary: attempt)
  case 0
  then show ?case by (subst getModelResponse_from.simps) (simp add: maxRetries_def)
next
  case (Suc n)
  from Suc.prems have lt: "attempt < maxRetries - 1" by simp
  with Suc.prems obtain e' where e: "gen attempt = Some (Fails e')" by auto
  have IH: "getModelResponse_from gen cs (attempt + 1) =
    (Settled (Inl (enhanced_message e)),
     concat (map (\<lambda>a. [GenerateContent cs, Sleep (baseDelayMs * 2 ^ a)])
               [attempt + 1..<maxRetries - 1])
       @ [GenerateContent cs])"
    using Suc.IH [of "attempt + 1"] Suc.prems by simp
  have ne: "attempt \<noteq> maxRetries - 1" "attempt < maxRetries" using lt by simp_all
  show ?case
    using e ne IH lt
    by (subst getModelResponse_from.simps) (simp add: upt_conv_Cons)
qed

lemma delays_steps:
  "delays (concat (map (\<lambda>a. [GenerateContent cs, Sleep (f a)]) as) @ [GenerateContent cs])
     = map f as"
  by (induction as) (simp_all add: delays_simps)

lemma requests_steps:
  "requests (concat (map (\<lambda>a. [GenerateContent cs, Sleep (f a)]) as) @ [GenerateContent cs])
     = Suc (length as)"
  by (induction as) (simp_all add: requests_simps)

lemma take_schedule:
  assumes "k < 5"
  shows "map (\<lambda>a. 1000 * 2 ^ a) [0..<k] = take k [1000, 2000, 4000, 8000 :: nat]"
proof -
  from assms consider "k = 0" | "k = 1" | "k = 2" | "k = 3" | "k = 4" by linarith
  then show ?thesis by cases (simp_all add: upt_rec)
qed

text \<open>
  Claim C7 gives the delays as 1, 2, 4, 8 and 16 seconds, and so does the comment in
  \<open>getModelResponse\<close> (\<open>Exponential backoff: 1s, 2s, 4s, 8s, 16s\<close>). When all five
  attempts fail, the timers set are those of 1, 2, 4 and 8 seconds: the test
  \<open>attempt === maxRetries - 1\<close> throws the error of the fifth attempt at once, so that
  the delay of 16 seconds is computed by no run. The older \<open>callGeminiAPI\<close> of lib/api.js
  gives up a rate-limited request after four attempts and the delays 1, 2 and 4
  seconds.
\<close>

theorem model_gateway_no_16s_delay:
  "requests (snd (getModelResponse always_failing [])) = 5
   \<and> delays (snd (getModelResponse always_failing [])) = [1000, 2000, 4000, 8000]
   \<and> 16000 \<notin> set (delays (snd (getModelResponse always_failing [])))
   \<and> fst (getModelResponse always_failing [])
       = Settled (Inl ''[429] quota exceeded (Too Many Requests)'')
   \<and> delays (snd (callGeminiAPI (fetch_status 429) [])) = [1000, 2000, 4000]
   \<and> fst (callGeminiAPI (fetch_status 429) [])
       = Settled (Inl ''Rate limited. Please try again later.'')"
  by code_simp

text \<open>
  What \<open>getModelResponse\<close> does in general. If the attempts before attempt \<open>k < 5\<close> fail
  and attempt \<open>k\<close> succeeds, its response is returned after \<open>k + 1\<close> requests, with the
  delays the first \<open>k\<close> of 1, 2, 4 and 8 seconds. If all five attempts fail, one error is
  thrown after 5 requests and the delays 1, 2, 4 and 8 seconds: its message is that of
  the fifth failure, with the status in brackets before it and the status text in
  parentheses after it when they are there; \<open>runOneIteration\<close> reports it in one \<open>ERROR\<close>
  message and returns \<open>COMPLETE\<close>.
\<close>

lemma model_gateway_retry:
  "(k < 5 \<and> (\<forall>a<k. \<exists>e. gen a = Some (Fails e)) \<and> gen k = Some (Resolves r) \<longrightarrow>
      fst (getModelResponse gen cs) = Settled (Inr (Some r))
      \<and> requests (snd (getModelResponse gen cs)) = k + 1
      \<and> delays (snd (getModelResponse gen cs)) = take k [1000, 2000, 4000, 8000])
   \<and> ((\<forall>a<4. \<exists>e. gen a = Some (Fails e)) \<and> gen 4 = Some (Fails e) \<longrightarrow>
      fst (getModelResponse gen cs) = Settled (Inl (enhanced_message e))
      \<and> requests (snd (getModelResponse gen cs)) = 5
      \<and> delays (snd (getModelResponse gen cs)) = [1000, 2000, 4000, 8000]
      \<and> (generate w = gen \<and> contents s = cs \<longrightarrow>
           runOneIteration w highlightMouse s =
             (COMPLETE, s,
              snd (getModelResponse gen cs) @ [ToSidepanel (ERROR (enhanced_message e))])))
   \<and> (err_message e = Some m \<and> m \<noteq> [] \<and> err_status e = Some st \<and> st \<noteq> 0
        \<and> err_statusText e = Some t \<and> t \<noteq> [] \<longrightarrow>
      enhanced_message e = ''['' @ nat_to_string st @ ''] '' @ m @ '' ('' @ t @ '')'')"
proof (intro conjI impI)
  assume a: "k < 5 \<and> (\<forall>a<k. \<exists>e. gen a = Some (Fails e)) \<and> gen k = Some (Resolves r)"
  then have eq: "getModelResponse gen cs =
    (Settled (Inr (Some r)),
     concat (map (\<lambda>a. [GenerateContent cs, Sleep (baseDelayMs * 2 ^ a)]) [0..<k])
       @ [GenerateContent cs])"
    unfolding getModelResponse_def
    by (intro retry_success [of 0 k]) (auto simp: maxRetries_def)
  show "fst (getModelResponse gen cs) = Settled (Inr (Some r))" by (simp add: eq)
  show "requests (snd (getModelResponse gen cs)) = k + 1"
    by (simp add: eq requests_steps)
  show "delays (snd (getModelResponse gen cs)) = take k [1000, 2000, 4000, 8000]"
    using a by (simp add: eq delays_steps baseDelayMs_def take_schedule)
next
  assume a: "(\<forall>a<4. \<exists>e. gen a = Some (Fails e)) \<and> gen 4 = Some (Fails e)"
  then have eq: "getModelResponse gen cs =
    (Settled (Inl (enhanced_message e)),
     concat (map (\<lambda>a. [GenerateContent cs, Sleep (baseDelayMs * 2 ^ a)]) [0..<maxRetries - 1])
       @ [GenerateContent cs])"
    unfolding getModelResponse_def
    by (intro retry_exhausted [of 0 4]) (auto simp: maxRetries_def)
  show "fst (getModelResponse gen cs) = Settled (Inl (enhanced_message e))" by (simp add: eq)
  show "requests (snd (getModelResponse gen cs)) = 5"
    by (simp add: eq requests_steps maxRetries_def)
  show "delays (snd (getModelResponse gen cs)) = [1000, 2000, 4000, 8000]"
    using take_schedule [of 4]
    by (simp add: eq delays_steps baseDelayMs_def maxRetries_def)
  assume "generate w = gen \<and> contents s = cs"
  then show "runOneIteration w highlightMouse s =
             (COMPLETE, s,
              snd (getModelResponse gen cs) @ [ToSidepanel (ERROR (enhanced_message e))])"
    by (simp add: runOneIteration_def eq)
next
  assume "err_message e = Some m \<and> m \<noteq> [] \<and> err_status e = Some st \<and> st \<noteq> 0
        \<and> err_statusText e = Some t \<and> t \<noteq> []"
  then show "enhanced_message e = ''['' @ nat_to_string st @ ''] '' @ m @ '' ('' @ t @ '')''"
    by (simp add: enhanced_message_def)
qed


lemma status_429: "nat_to_string 429 = ''429''"
  by code_simp

lemma model_gateway_retry_example:
  "fst (getModelResponse recovering []) = Settled (Inr (Some \<lparr>candidates = Some []\<rparr>))
   \<and> requests (snd (getModelResponse recovering [])) = 5
   \<and> delays (snd (getModelResponse recovering [])) = [1000, 2000, 4000, 8000]
   \<and> fst (getModelResponse always_failing (contents example_state))
       = Settled (Inl ''[429] quota exceeded (Too Many Requests)'')
   \<and> runOneIteration failing_world False example_state =
       (COMPLETE, example_state,
        snd (getModelResponse always_failing (contents example_state))
          @ [ToSidepanel (ERROR ''[429] quota exceeded (Too Many Requests)'')])"
  using model_gateway_retry [where k = 4 and gen = recovering
      and r = "\<lparr>candidates = Some []\<rparr>" and cs = "[]"]
    model_gateway_retry [where gen = always_failing and e = example_error
      and cs = "contents example_state" and w = failing_world and s = example_state
      and highlightMouse = False and m = "''quota exceeded''" and st = 429
      and t = "''Too Many Requests''"]
  by (simp add: recovering_def always_failing_def failing_world_def example_world_def
      example_error_def status_429)

section \<open>Properties of the loop over the function calls\<close>

lemma safety_gate_shape:
  assumes "safety_gate w k fc = (g, asked)"
  shows
    "requiresSafetyConfirmation fc = None \<and> g = Proceed False \<and> asked = [] \<or>
     (\<exists>e. requiresSafetyConfirmation fc = Some e \<and> safetyResponse w k = None
          \<and> g = Unanswered \<and> asked = [ToSidepanel (SAFETY_CONFIRMATION fc e)]) \<or>
     (\<exists>e. requiresSafetyConfirmation fc = Some e \<and> safetyResponse w k = Some False
          \<and> g = Refused
          \<and> asked = [ToSidepanel (SAFETY_CONFIRMATION fc e), SafetyAnswer k False]) \<or>
     (\<exists>e. requiresSafetyConfirmation fc = Some e \<and> safetyResponse w k = Some True
          \<and> g = Proceed True
          \<and> asked = [ToSidepanel (SAFETY_CONFIRMATION fc e), SafetyAnswer k True])"
  using assms by (auto simp: safety_gate_def split: option.splits if_splits)

lemma perform_action_shape:
  assumes "perform_action w h r t k fc ack s = (res, s1, done)"
  shows
    "(\<exists>m. res = Inl m \<and> s1 = s
         \<and> done = [ExecuteAction k fc, WaitForPageSettle, CaptureScreenshot]) \<or>
     (\<exists>entry. res = Inr entry \<and> contents s1 = contents s
         \<and> done = [ExecuteAction k fc, WaitForPageSettle, CaptureScreenshot, SaveTrajectory,
                    ToSidepanel TRAJECTORY_UPDATED, Sleep 200])"
  using assms by (auto simp: perform_action_def Let_def split: sum.splits)

text \<open>The ways through one pass of the body of the loop in \<open>runOneIteration\<close>.\<close>

lemma batch_step:
  assumes "executeFunctionCalls w h r t k (c # calls) frs s = (end, frs', s', es)"
  obtains
    (stopped) "shouldStop w k" "end = Stopped" "es = []" "frs' = frs" "s' = s"
  | (unanswered) e where "requiresSafetyConfirmation c = Some e" "safetyResponse w k = None"
      "end = Awaiting" "es = [ToSidepanel (SAFETY_CONFIRMATION c e)]" "frs' = frs" "s' = s"
  | (refused) e where "requiresSafetyConfirmation c = Some e" "safetyResponse w k = Some False"
      "end = Denied" "es = [ToSidepanel (SAFETY_CONFIRMATION c e), SafetyAnswer k False]"
      "frs' = frs" "s' = s"
  | (raised) m asked where
      "requiresSafetyConfirmation c = None \<and> asked = [] \<or>
       (\<exists>e. requiresSafetyConfirmation c = Some e \<and> safetyResponse w k = Some True
            \<and> asked = [ToSidepanel (SAFETY_CONFIRMATION c e), SafetyAnswer k True])"
      "end = Raised m" "es = asked @ [ExecuteAction k c, WaitForPageSettle, CaptureScreenshot]"
      "frs' = frs" "s' = s"
  | (performed) asked entry s1 later where
      "requiresSafetyConfirmation c = None \<and> asked = [] \<or>
       (\<exists>e. requiresSafetyConfirmation c = Some e \<and> safetyResponse w k = Some True
            \<and> asked = [ToSidepanel (SAFETY_CONFIRMATION c e), SafetyAnswer k True])"
      "executeFunctionCalls w h r t (Suc k) calls (frs @ [entry]) s1 = (end, frs', s', later)"
      "es = asked @ [ExecuteAction k c, WaitForPageSettle, CaptureScreenshot, SaveTrajectory,
               ToSidepanel TRAJECTORY_UPDATED, Sleep 200] @ later"
      "contents s1 = contents s"
proof (cases "shouldStop w k")
  case True
  with assms show ?thesis by (intro stopped) simp_all
next
  case False
  obtain g asked where g: "safety_gate w k c = (g, asked)" by (cases "safety_gate w k c")
  note gate = safety_gate_shape [OF g]
  show ?thesis
  proof (cases g)
    case Unanswered
    with g gate assms False show ?thesis
      by (auto intro: unanswered)
  next
    case Refused
    with g gate assms False show ?thesis
      by (auto intro: refused)
  next
    case (Proceed ack)
    obtain res s1 done' where p: "perform_action w h r t k c ack s = (res, s1, done')"
      by (cases "perform_action w h r t k c ack s")
    note shape = perform_action_shape [OF p]
    have a: "requiresSafetyConfirmation c = None \<and> asked = [] \<or>
       (\<exists>e. requiresSafetyConfirmation c = Some e \<and> safetyResponse w k = Some True
            \<and> asked = [ToSidepanel (SAFETY_CONFIRMATION c e), SafetyAnswer k True])"
      using gate Proceed by auto
    show ?thesis
    proof (cases res)
      case (Inl m)
      with g p Proceed assms False shape show ?thesis
        by (intro raised [of asked m]) (use a in auto)
    next
      case (Inr entry)
      obtain e2 f2 s2 later where rec:
        "executeFunctionCalls w h r t (Suc k) calls (frs @ [entry]) s1 = (e2, f2, s2, later)"
        by (cases "executeFunctionCalls w h r t (Suc k) calls (frs @ [entry]) s1")
      with g p Proceed Inr assms False shape show ?thesis
        by (intro performed [of asked entry s1 later]) (use a in auto)
    qed
  qed
qed

text \<open>Every executor call and every answer of a batch belongs to a call of the batch.\<close>

lemma batch_indices:
  assumes "executeFunctionCalls w h r t k calls frs s = (end, frs', s', es)"
  shows "(ExecuteAction j fc \<in> set es \<longrightarrow> k \<le> j \<and> j < k + length calls \<and> fc = calls ! (j - k))
       \<and> (SafetyAnswer j b \<in> set es \<longrightarrow>
            k \<le> j \<and> j < k + length calls \<and> safetyResponse w j = Some b)"
  using assms
proof (induction calls arbitrary: k frs s es)
  case Nil
  then show ?case by simp
next
  case (Cons c calls)
  from Cons.prems show ?case
  proof (cases rule: batch_step)
    case (performed asked entry s1 later)
    from Cons.IH [OF performed(2)] performed(1,3) show ?thesis
      by (auto simp: nth_Cons' Suc_diff_le)
  qed auto
qed

lemma batch_contents:
  assumes "executeFunctionCalls w h r t k calls frs s = (end, frs', s', es)"
  shows "contents s' = contents s"
  using assms
proof (induction calls arbitrary: k frs s es)
  case Nil
  then show ?case by simp
next
  case (Cons c calls)
  from Cons.prems show ?case
  proof (cases rule: batch_step)
    case (performed asked entry s1 later)
    from Cons.IH [OF performed(2)] performed(4) show ?thesis by simp
  qed auto
qed

lemma batch_approved_first:
  assumes "executeFunctionCalls w h r t k calls frs s = (end, frs', s', es)"
    and "ExecuteAction j fc \<in> set es" and "requiresSafetyConfirmation fc \<noteq> None"
  shows "SafetyAnswer j True \<in> set (before (ExecuteAction j fc) es)"
  using assms
proof (induction calls arbitrary: k frs s es)
  case Nil
  then show ?case by simp
next
  case (Cons c calls)
  from Cons.prems(1) show ?case
  proof (cases rule: batch_step)
    case (performed asked entry s1 later)
    show ?thesis
    proof (cases "j = k")
      case True
      have "ExecuteAction j fc \<notin> set later"
        using batch_indices [OF performed(2), of j fc] True by auto
      with Cons.prems(2) performed(1,3) have "fc = c" using True by auto
      with performed(1,3) Cons.prems(3) True show ?thesis
        by (auto simp: before_def)
    next
      case False
      with Cons.prems(2) performed(1,3) have in_later: "ExecuteAction j fc \<in> set later" by auto
      from Cons.IH [OF performed(2) in_later Cons.prems(3)]
      have "SafetyAnswer j True \<in> set (before (ExecuteAction j fc) later)" .
      with performed(1,3) False show ?thesis
        by (auto simp: before_def)
    qed
  next
    case (raised m asked)
    with Cons.prems show ?thesis by (auto simp: before_def)
  qed (use Cons.prems in auto)
qed

text \<open>A denial ends the loop: nothing at or after the denied position is executed.\<close>

lemma batch_denied:
  assumes "executeFunctionCalls w h r t k calls frs s = (end, frs', s', es)"
    and "SafetyAnswer j False \<in> set es"
  shows "end = Denied \<and> (\<forall>i fc. ExecuteAction i fc \<in> set es \<longrightarrow> i < j)"
  using assms
proof (induction calls arbitrary: k frs s es)
  case Nil
  then show ?case by simp
next
  case (Cons c calls)
  from Cons.prems(1) show ?case
  proof (cases rule: batch_step)
    case (performed asked entry s1 later)
    from Cons.prems(2) performed(1,3) have in_later: "SafetyAnswer j False \<in> set later" by auto
    from batch_indices [OF performed(2), of j undefined False] in_later have "Suc k \<le> j" by simp
    with Cons.IH [OF performed(2) in_later] performed(1,3) show ?thesis
      by auto
  qed (use Cons.prems in auto)
qed

text \<open>The ways through one pass of the body of the loop in the older service worker.\<close>

lemma legacy_step:
  assumes "executeFunctionCalls_legacy w h k (c # calls) frs = (end, frs', es)"
  obtains
    (stopped) "shouldStop w k" "end = Stopped" "es = []" "frs' = frs"
  | (unanswered) e where "requiresSafetyConfirmation c = Some e" "safetyResponse w k = None"
      "end = Awaiting" "es = [ToSidepanel (SAFETY_CONFIRMATION c e)]" "frs' = frs"
  | (refused) e later where "requiresSafetyConfirmation c = Some e"
      "safetyResponse w k = Some False"
      "executeFunctionCalls_legacy w h (Suc k) calls (frs @ [denied_response c]) = (end, frs', later)"
      "es = [ToSidepanel (SAFETY_CONFIRMATION c e), SafetyAnswer k False] @ later"
  | (performed) asked ack later where
      "requiresSafetyConfirmation c = None \<and> asked = [] \<or>
       (\<exists>e. requiresSafetyConfirmation c = Some e \<and> safetyResponse w k = Some True
            \<and> asked = [ToSidepanel (SAFETY_CONFIRMATION c e), SafetyAnswer k True])"
      "executeFunctionCalls_legacy w h (Suc k) calls
         (frs @ [buildFunctionResponse (fc_name c)
                   (executeAction_legacy (browserAt w k) (fc_name c) (fc_args c) h) ack])
        = (end, frs', later)"
      "es = asked @ [ExecuteAction k c, Sleep 200] @ later"
proof (cases "shouldStop w k")
  case True
  with assms show ?thesis by (intro stopped) simp_all
next
  case False
  obtain g asked where g: "safety_gate w k c = (g, asked)" by (cases "safety_gate w k c")
  note gate = safety_gate_shape [OF g]
  show ?thesis
  proof (cases g)
    case Unanswered
    with g gate assms False show ?thesis
      by (auto intro: unanswered)
  next
    case Refused
    obtain e2 f2 later where rec:
      "executeFunctionCalls_legacy w h (Suc k) calls (frs @ [denied_response c]) = (e2, f2, later)"
      by (cases "executeFunctionCalls_legacy w h (Suc k) calls (frs @ [denied_response c])")
    from gate Refused obtain e where e: "requiresSafetyConfirmation c = Some e"
      "safetyResponse w k = Some False"
      "asked = [ToSidepanel (SAFETY_CONFIRMATION c e), SafetyAnswer k False]" by auto
    from rec Refused g assms False e show ?thesis
      by (intro refused [of e later]) (auto simp: denied_response_def)
  next
    case (Proceed ack)
    let ?entry = "buildFunctionResponse (fc_name c)
                   (executeAction_legacy (browserAt w k) (fc_name c) (fc_args c) h) ack"
    obtain e2 f2 later where rec:
      "executeFunctionCalls_legacy w h (Suc k) calls (frs @ [?entry]) = (e2, f2, later)"
      by (cases "executeFunctionCalls_legacy w h (Suc k) calls (frs @ [?entry])")
    have a: "requiresSafetyConfirmation c = None \<and> asked = [] \<or>
       (\<exists>e. requiresSafetyConfirmation c = Some e \<and> safetyResponse w k = Some True
            \<and> asked = [ToSidepanel (SAFETY_CONFIRMATION c e), SafetyAnswer k True])"
      using gate Proceed by auto
    from rec g Proceed assms False show ?thesis
      by (intro performed [of asked ack later]) (use a in \<open>auto simp: Let_def\<close>)
  qed
qed

lemma legacy_indices:
  assumes "executeFunctionCalls_legacy w h k calls frs = (end, frs', es)"
  shows "(ExecuteAction j fc \<in> set es \<longrightarrow> k \<le> j \<and> j < k + length calls \<and> fc = calls ! (j - k))
       \<and> (SafetyAnswer j b \<in> set es \<longrightarrow>
            k \<le> j \<and> j < k + length calls \<and> safetyResponse w j = Some b)"
  using assms
proof (induction calls arbitrary: k frs es)
  case Nil
  then show ?case by simp
next
  case (Cons c calls)
  from Cons.prems show ?case
  proof (cases rule: legacy_step)
    case (refused e later)
    from Cons.IH [OF refused(3)] refused(2,4) show ?thesis
      by (auto simp: nth_Cons' Suc_diff_le)
  next
    case (performed asked ack later)
    from Cons.IH [OF performed(2)] performed(1,3) show ?thesis
      by (auto simp: nth_Cons' Suc_diff_le)
  qed auto
qed

lemma legacy_responses_grow:
  assumes "executeFunctionCalls_legacy w h k calls frs = (end, frs', es)"
  shows "\<exists>more. frs' = frs @ more"
  using assms
proof (induction calls arbitrary: k frs es)
  case Nil
  then show ?case by simp
next
  case (Cons c calls)
  from Cons.prems show ?case
  proof (cases rule: legacy_step)
    case (refused e later)
    from Cons.IH [OF refused(3)] show ?thesis by auto
  next
    case (performed asked ack later)
    from Cons.IH [OF performed(2)] show ?thesis by auto
  qed auto
qed

lemma legacy_approved_first:
  assumes "executeFunctionCalls_legacy w h k calls frs = (end, frs', es)"
    and "ExecuteAction j fc \<in> set es" and "requiresSafetyConfirmation fc \<noteq> None"
  shows "SafetyAnswer j True \<in> set (before (ExecuteAction j fc) es)"
  using assms
proof (induction calls arbitrary: k frs es)
  case Nil
  then show ?case by simp
next
  case (Cons c calls)
  from Cons.prems(1) show ?case
  proof (cases rule: legacy_step)
    case (performed asked ack later)
    show ?thesis
    proof (cases "j = k")
      case True
      have "ExecuteAction j fc \<notin> set later"
        using legacy_indices [OF performed(2), of j fc] True by auto
      with Cons.prems(2) performed(1,3) have "fc = c" using True by auto
      with performed(1,3) Cons.prems(3) True show ?thesis
        by (auto simp: before_def)
    next
      case False
      with Cons.prems(2) performed(1,3) have in_later: "ExecuteAction j fc \<in> set later" by auto
      from Cons.IH [OF performed(2) in_later Cons.prems(3)]
      have "SafetyAnswer j True \<in> set (before (ExecuteAction j fc) later)" .
      with performed(1,3) False show ?thesis
        by (auto simp: before_def)
    qed
  next
    case (refused e later)
    from Cons.prems(2) refused(4) have in_later: "ExecuteAction j fc \<in> set later" by auto
    from Cons.IH [OF refused(3) in_later Cons.prems(3)]
    have "SafetyAnswer j True \<in> set (before (ExecuteAction j fc) later)" .
    with refused(4) show ?thesis
      by (auto simp: before_def)
  qed (use Cons.prems in auto)
qed

lemma shift_index: "Suc k \<le> j \<Longrightarrow> length (frs @ [x]) + (j - Suc k) = length frs + (j - k)"
  by simp

lemma shift_nth: "Suc k \<le> j \<Longrightarrow> (c # calls) ! (j - k) = calls ! (j - Suc k)"
  by (simp add: nth_Cons' Suc_diff_le)

text \<open>In the older loop a denied call is not executed and is answered with a denial.\<close>

lemma legacy_denied:
  assumes "executeFunctionCalls_legacy w h k calls frs = (end, frs', es)"
    and "SafetyAnswer j False \<in> set es"
  shows "(\<forall>fc. ExecuteAction j fc \<notin> set es)
       \<and> length frs + (j - k) < length frs'
       \<and> frs' ! (length frs + (j - k)) = denied_response (calls ! (j - k))"
  using assms
proof (induction calls arbitrary: k frs es)
  case Nil
  then show ?case by simp
next
  case (Cons c calls)
  from Cons.prems(1) show ?case
  proof (cases rule: legacy_step)
    case (performed asked ack later)
    from Cons.prems(2) performed(1,3) have in_later: "SafetyAnswer j False \<in> set later" by auto
    from legacy_indices [OF performed(2), of j undefined False] in_later
    have le: "Suc k \<le> j" by simp
    from Cons.IH [OF performed(2) in_later, unfolded shift_index [OF le]]
      shift_nth [OF le, of c calls] le performed(1,3)
    show ?thesis
      by auto
  next
    case (refused e later)
    show ?thesis
    proof (cases "j = k")
      case True
      have no: "\<forall>fc. ExecuteAction j fc \<notin> set later"
        using legacy_indices [OF refused(3), of j _ False] True by auto
      from legacy_responses_grow [OF refused(3)]
      obtain more where "frs' = frs @ denied_response c # more" by auto
      with no True refused(4) show ?thesis by auto
    next
      case False
      with Cons.prems(2) refused(4) have in_later: "SafetyAnswer j False \<in> set later" by auto
      from legacy_indices [OF refused(3), of j undefined False] in_later
      have le: "Suc k \<le> j" by simp
      from Cons.IH [OF refused(3) in_later, unfolded shift_index [OF le]]
        shift_nth [OF le, of c calls] le refused(4)
      show ?thesis
        by auto
    qed
  qed (use Cons.prems in auto)
qed

text \<open>
  The older loop never ends on a denial; when it reaches the end of the batch, every
  call has a function response and was either executed or denied.
\<close>

lemma legacy_finished:
  assumes "executeFunctionCalls_legacy w h k calls frs = (end, frs', es)"
  shows "end \<noteq> Denied \<and> (\<forall>m. end \<noteq> Raised m) \<and>
     (end = Finished \<longrightarrow> length frs' = length frs + length calls
        \<and> (\<forall>i<length calls. ExecuteAction (k + i) (calls ! i) \<in> set es
                             \<or> SafetyAnswer (k + i) False \<in> set es))"
  using assms
proof (induction calls arbitrary: k frs es)
  case Nil
  then show ?case by auto
next
  case (Cons c calls)
  from Cons.prems(1) show ?case
  proof (cases rule: legacy_step)
    case (performed asked ack later)
    from Cons.IH [OF performed(2)] performed(3) show ?thesis
      by (auto simp: nth_Cons' less_Suc_eq_0_disj)
  next
    case (refused e later)
    from Cons.IH [OF refused(3)] refused(4) show ?thesis
      by (auto simp: nth_Cons' less_Suc_eq_0_disj)
  qed auto
qed

section \<open>Properties of an iteration\<close>

lemma before_embed:
  assumes "e \<in> set es" "x \<noteq> e"
  shows "before e (x # es @ tail) = x # before e es"
proof -
  from assms(1) obtain y where "y \<in> set es" "\<not> y \<noteq> e" by auto
  then have "takeWhile (\<lambda>x. x \<noteq> e) (es @ tail) = takeWhile (\<lambda>x. x \<noteq> e) es"
    by (rule takeWhile_append1)
  with assms(2) show ?thesis by (simp add: before_def)
qed

text \<open>The ways through \<open>runOneIteration\<close> once the candidate is at hand.\<close>

lemma process_candidate_cases:
  assumes "process_candidate w h c s = (result, s', es)"
  obtains
    (retry) "extractFunctionCalls c = []" "getText c = None \<or> getText c = Some []"
      "isMalformedFunctionCall c" "result = CONTINUE" "es = []"
      "s' = s\<lparr>contents := addModelResponse c (contents s)\<rparr>"
  | (final) st where "extractFunctionCalls c = []"
      "\<not> ((getText c = None \<or> getText c = Some []) \<and> isMalformedFunctionCall c)"
      "result = COMPLETE"
      "finish_without_calls (getText c) (extractThoughtSummary c)
         (s\<lparr>contents := addModelResponse c (contents s)\<rparr>) = (s', st)"
      "es = ToSidepanel (UPDATE_CONVERSATION ''model'' (getText c) (extractThoughtSummary c) [])
              # st"
  | (batch) "end" frs s2 bes where "extractFunctionCalls c \<noteq> []"
      "executeFunctionCalls w h (getText c) (extractThoughtSummary c) 0 (extractFunctionCalls c) []
         (s\<lparr>contents := addModelResponse c (contents s)\<rparr>) = (end, frs, s2, bes)"
      "es = ToSidepanel (UPDATE_CONVERSATION ''model'' (getText c) (extractThoughtSummary c)
                           (extractFunctionCalls c)) # bes"
      "end = Denied \<longrightarrow> result = COMPLETE \<and> s' = s2"
      "result = CONTINUE \<longrightarrow> end = Finished"
proof (cases "extractFunctionCalls c = []")
  case True
  show ?thesis
  proof (cases "(getText c = None \<or> getText c = Some []) \<and> isMalformedFunctionCall c")
    case True
    with \<open>extractFunctionCalls c = []\<close> assms show ?thesis
      by (intro retry) (auto simp: process_candidate_def Let_def)
  next
    case False
    obtain s2 st where f: "finish_without_calls (getText c) (extractThoughtSummary c)
         (s\<lparr>contents := addModelResponse c (contents s)\<rparr>) = (s2, st)"
      by (cases "finish_without_calls (getText c) (extractThoughtSummary c)
         (s\<lparr>contents := addModelResponse c (contents s)\<rparr>)")
    with False \<open>extractFunctionCalls c = []\<close> assms show ?thesis
      by (intro final [of st]) (auto simp: process_candidate_def Let_def)
  qed
next
  case False
  obtain e frs s2 bes where b:
    "executeFunctionCalls w h (getText c) (extractThoughtSummary c) 0 (extractFunctionCalls c) []
         (s\<lparr>contents := addModelResponse c (contents s)\<rparr>) = (e, frs, s2, bes)"
    by (cases "executeFunctionCalls w h (getText c) (extractThoughtSummary c) 0
         (extractFunctionCalls c) [] (s\<lparr>contents := addModelResponse c (contents s)\<rparr>)")
  with False assms show ?thesis
    by (intro batch [of e frs s2 bes])
      (auto simp: process_candidate_def Let_def split: batch_end.splits if_splits)
qed

text \<open>The ways through the body of the older loop once the reply is at hand.\<close>

lemma legacy_process_cases:
  assumes "legacy_process_reply w h ps history = (result, history', es)"
  obtains
    (final) "calls_of_parts ps = []" "result = COMPLETE"
      "history' = history @ [\<lparr>c_role = ''model'', c_parts = Some ps\<rparr>]"
      "es = [ToSidepanel (UPDATE_CONVERSATION ''model'' (Some (extractText ps)) None []),
             ToSidepanel (STATUS_UPDATE
               (if isWaitingForInput_api ps then ''waiting'' else ''idle''))]"
  | (batch) "end" frs bes tail where "calls_of_parts ps \<noteq> []"
      "executeFunctionCalls_legacy w h 0 (calls_of_parts ps) [] = (end, frs, bes)"
      "es = ToSidepanel (UPDATE_CONVERSATION ''model'' (Some (extractText ps)) None
                           (calls_of_parts ps)) # bes @ tail"
      "set tail \<subseteq> {WaitForPageSettle, CaptureScreenshot, Sleep 300}"
      "result = CONTINUE \<longrightarrow> end = Finished \<and>
         (\<exists>shot. history' = history @ [\<lparr>c_role = ''model'', c_parts = Some ps\<rparr>,
            \<lparr>c_role = ''user'', c_parts = Some (frs @ [shot])\<rparr>])"
proof (cases "calls_of_parts ps = []")
  case True
  with assms show ?thesis
    by (intro final) (auto simp: legacy_process_reply_def Let_def)
next
  case False
  obtain e frs bes where b:
    "executeFunctionCalls_legacy w h 0 (calls_of_parts ps) [] = (e, frs, bes)"
    by (cases "executeFunctionCalls_legacy w h 0 (calls_of_parts ps) []")
  from b False assms have
    "\<exists>tail. es = ToSidepanel (UPDATE_CONVERSATION ''model'' (Some (extractText ps)) None
                           (calls_of_parts ps)) # bes @ tail
        \<and> set tail \<subseteq> {WaitForPageSettle, CaptureScreenshot, Sleep 300}
        \<and> (result = CONTINUE \<longrightarrow> e = Finished \<and>
         (\<exists>shot. history' = history @ [\<lparr>c_role = ''model'', c_parts = Some ps\<rparr>,
            \<lparr>c_role = ''user'', c_parts = Some (frs @ [shot])\<rparr>]))"
    by (auto simp: legacy_process_reply_def Let_def split: batch_end.splits if_splits sum.splits)
  with b False show ?thesis
    by (auto intro: batch)
qed

text \<open>
  Claim C1, as stated, fails in \<open>runOneIteration\<close> of src/background/service-worker.js:
  when the confirmation of a flagged click is answered with a denial, the iteration
  returns \<open>COMPLETE\<close> with the model turn as its only addition to the history and no
  trajectory step; nothing records the denial. The older loop, on the same reply,
  records it.
\<close>

theorem denial_not_recorded_counterexample:
  "fst (runOneIteration (example_world (reply_with [gated_click] ''STOP'') False) False
          example_state) = COMPLETE
   \<and> SafetyAnswer 0 False \<in> set (snd (snd
        (runOneIteration (example_world (reply_with [gated_click] ''STOP'') False) False
           example_state)))
   \<and> contents (fst (snd
        (runOneIteration (example_world (reply_with [gated_click] ''STOP'') False) False
           example_state)))
       = contents example_state @ [\<lparr>c_role = ''model'', c_parts = Some [gated_click]\<rparr>]
   \<and> trajectorySteps (fst (snd
        (runOneIteration (example_world (reply_with [gated_click] ''STOP'') False) False
           example_state))) = []
   \<and> \<not> denial_recorded (contents (fst (snd
        (runOneIteration (example_world (reply_with [gated_click] ''STOP'') False) False
           example_state))))
   \<and> denial_recorded (fst (snd
        (legacy_iteration (example_world (reply_with [gated_click] ''STOP'') False) False
           (contents example_state))))"
  by code_simp

text \<open>
  Claim C1, amended: in both loops, whenever the executor is invoked for a call that
  is flagged \<open>require_confirmation\<close>, a confirmation of that call was answered with
  \<open>allowed = true\<close> before; a call whose confirmation is answered with
  \<open>allowed = false\<close> is never executed; every executor invocation is for a call of
  the reply and every answer is the decision that was supplied from outside. The older loop answers a denied call with a function response
  \<open>denied: true\<close>, which is in the history when the pass reaches its end.
  (\<open>runOneIteration\<close> of src/background/service-worker.js records nothing for it.)
\<close>

theorem safety_gating:
  assumes "process_candidate w highlightMouse candidate s = (result, s', es)"
    and "legacy_process_reply w highlightMouse ps history = (result_l, history_l, es_l)"
  shows
    "(ExecuteAction k fc \<in> set es \<longrightarrow>
        k < length (extractFunctionCalls candidate) \<and> fc = extractFunctionCalls candidate ! k)
     \<and> (ExecuteAction k fc \<in> set es \<and> requiresSafetyConfirmation fc \<noteq> None \<longrightarrow>
        SafetyAnswer k True \<in> set (before (ExecuteAction k fc) es))
     \<and> (SafetyAnswer k False \<in> set es \<longrightarrow> (\<forall>fc'. ExecuteAction k fc' \<notin> set es))
     \<and> (ExecuteAction k fc \<in> set es_l \<longrightarrow>
        k < length (calls_of_parts ps) \<and> fc = calls_of_parts ps ! k)
     \<and> (ExecuteAction k fc \<in> set es_l \<and> requiresSafetyConfirmation fc \<noteq> None \<longrightarrow>
        SafetyAnswer k True \<in> set (before (ExecuteAction k fc) es_l))
     \<and> (SafetyAnswer k False \<in> set es_l \<longrightarrow> (\<forall>fc'. ExecuteAction k fc' \<notin> set es_l))
     \<and> (SafetyAnswer k False \<in> set es_l \<and> result_l = CONTINUE \<longrightarrow>
        (\<exists>responses. last history_l = \<lparr>c_role = ''user'', c_parts = Some responses\<rparr>
           \<and> k < length responses
           \<and> responses ! k = denied_response (calls_of_parts ps ! k))
        \<and> denial_recorded history_l)
     \<and> (SafetyAnswer k allowed \<in> set es \<or> SafetyAnswer k allowed \<in> set es_l \<longrightarrow>
        safetyResponse w k = Some allowed)"
proof -
  have sw: "(ExecuteAction k fc \<in> set es \<longrightarrow>
        k < length (extractFunctionCalls candidate) \<and> fc = extractFunctionCalls candidate ! k)
     \<and> (ExecuteAction k fc \<in> set es \<and> requiresSafetyConfirmation fc \<noteq> None \<longrightarrow>
        SafetyAnswer k True \<in> set (before (ExecuteAction k fc) es))
     \<and> (SafetyAnswer k False \<in> set es \<longrightarrow> (\<forall>fc'. ExecuteAction k fc' \<notin> set es))
     \<and> (SafetyAnswer k allowed \<in> set es \<longrightarrow> safetyResponse w k = Some allowed)"
    using assms(1)
  proof (cases rule: process_candidate_cases)
    case retry
    then show ?thesis by simp
  next
    case (final st)
    then show ?thesis
      by (auto simp: finish_without_calls_def Let_def split: if_splits)
  next
    case (batch e frs s2 bes)
    note i = batch_indices [OF batch(2)]
    have "ExecuteAction k fc \<in> set bes \<Longrightarrow> requiresSafetyConfirmation fc \<noteq> None \<Longrightarrow>
        SafetyAnswer k True \<in> set (before (ExecuteAction k fc) es)"
      using batch_approved_first [OF batch(2), of k fc] batch(3)
        before_embed [of "ExecuteAction k fc" bes _ "[]"]
      by auto
    moreover have "SafetyAnswer k False \<in> set bes \<Longrightarrow> ExecuteAction k fc' \<notin> set bes" for fc'
      using batch_denied [OF batch(2), of k] by auto
    ultimately show ?thesis
      using i [of k fc allowed] batch(3) by auto
  qed
  have lg: "(ExecuteAction k fc \<in> set es_l \<longrightarrow>
        k < length (calls_of_parts ps) \<and> fc = calls_of_parts ps ! k)
     \<and> (ExecuteAction k fc \<in> set es_l \<and> requiresSafetyConfirmation fc \<noteq> None \<longrightarrow>
        SafetyAnswer k True \<in> set (before (ExecuteAction k fc) es_l))
     \<and> (SafetyAnswer k False \<in> set es_l \<longrightarrow> (\<forall>fc'. ExecuteAction k fc' \<notin> set es_l))
     \<and> (SafetyAnswer k False \<in> set es_l \<and> result_l = CONTINUE \<longrightarrow>
        (\<exists>responses. last history_l = \<lparr>c_role = ''user'', c_parts = Some responses\<rparr>
           \<and> k < length responses
           \<and> responses ! k = denied_response (calls_of_parts ps ! k))
        \<and> denial_recorded history_l)
     \<and> (SafetyAnswer k allowed \<in> set es_l \<longrightarrow> safetyResponse w k = Some allowed)"
    using assms(2)
  proof (cases rule: legacy_process_cases)
    case final
    then show ?thesis by simp
  next
    case (batch e frs bes tail)
    note i = legacy_indices [OF batch(2)]
    have in_bes: "ExecuteAction k fc' \<in> set es_l \<longleftrightarrow> ExecuteAction k fc' \<in> set bes"
      "SafetyAnswer k b \<in> set es_l \<longleftrightarrow> SafetyAnswer k b \<in> set bes" for fc' b
      using batch(3,4) by auto
    have first: "ExecuteAction k fc \<in> set bes \<Longrightarrow> requiresSafetyConfirmation fc \<noteq> None \<Longrightarrow>
        SafetyAnswer k True \<in> set (before (ExecuteAction k fc) es_l)"
      using legacy_approved_first [OF batch(2), of k fc] batch(3)
        before_embed [of "ExecuteAction k fc" bes _ tail]
      by auto
    have never: "SafetyAnswer k False \<in> set bes \<Longrightarrow> ExecuteAction k fc' \<notin> set bes" for fc'
      using legacy_denied [OF batch(2), of k] by auto
    have recorded: "(\<exists>responses. last history_l = \<lparr>c_role = ''user'', c_parts = Some responses\<rparr>
           \<and> k < length responses
           \<and> responses ! k = denied_response (calls_of_parts ps ! k))
        \<and> denial_recorded history_l"
      if d: "SafetyAnswer k False \<in> set bes" and c: "result_l = CONTINUE"
    proof -
      from legacy_denied [OF batch(2) d]
      have k: "k < length frs" "frs ! k = denied_response (calls_of_parts ps ! k)" by simp_all
      from batch(5) c obtain shot where
        h: "history_l = history @ [\<lparr>c_role = ''model'', c_parts = Some ps\<rparr>,
            \<lparr>c_role = ''user'', c_parts = Some (frs @ [shot])\<rparr>]" by auto
      have in_frs: "denied_response (calls_of_parts ps ! k) \<in> set frs"
        using k by (metis nth_mem)
      have "denial_recorded history_l"
        unfolding denial_recorded_def list_ex_iff h
        using in_frs
        by (auto simp: denied_response_def buildFunctionResponse_def get_def
            intro!: bexI [of _ "denied_response (calls_of_parts ps ! k)"])
      with h k show ?thesis
        by (auto simp: nth_append)
    qed
    show ?thesis
      using i [of k fc allowed] first never recorded in_bes by auto
  qed
  from sw lg show ?thesis by auto
qed

lemma approved_run:
  "ExecuteAction 0 \<lparr>fc_name = ''click_at'', fc_args = the (snd (the (p_functionCall gated_click)))\<rparr>
     \<in> set (snd (snd (process_candidate
          (example_world (reply_with [gated_click, plain_navigate] ''STOP'') True) False
          (reply_with [gated_click, plain_navigate] ''STOP'') example_state)))"
  "requiresSafetyConfirmation
     \<lparr>fc_name = ''click_at'', fc_args = the (snd (the (p_functionCall gated_click)))\<rparr> \<noteq> None"
  by code_simp+

lemma denied_legacy_run:
  "SafetyAnswer 0 False \<in> set (snd (snd (legacy_process_reply
       (example_world (reply_with [gated_click, plain_navigate] ''STOP'') False) False
       [gated_click, plain_navigate] [])))"
  "fst (legacy_process_reply
       (example_world (reply_with [gated_click, plain_navigate] ''STOP'') False) False
       [gated_click, plain_navigate] []) = CONTINUE"
  "ExecuteAction 1 \<lparr>fc_name = ''navigate'', fc_args = [(''url'', JStr ''weather.com'')]\<rparr>
     \<in> set (snd (snd (legacy_process_reply
       (example_world (reply_with [gated_click, plain_navigate] ''STOP'') False) False
       [gated_click, plain_navigate] [])))"
  by code_simp+

theorem safety_gating_witness:
  "SafetyAnswer 0 True \<in> set (before
      (ExecuteAction 0
         \<lparr>fc_name = ''click_at'', fc_args = the (snd (the (p_functionCall gated_click)))\<rparr>)
      (snd (snd (process_candidate
          (example_world (reply_with [gated_click, plain_navigate] ''STOP'') True) False
          (reply_with [gated_click, plain_navigate] ''STOP'') example_state))))
   \<and> denial_recorded (fst (snd (legacy_process_reply
       (example_world (reply_with [gated_click, plain_navigate] ''STOP'') False) False
       [gated_click, plain_navigate] [])))"
proof -
  let ?click = "\<lparr>fc_name = ''click_at'',
                 fc_args = the (snd (the (p_functionCall gated_click)))\<rparr>"
  let ?reply = "reply_with [gated_click, plain_navigate] ''STOP''"
  let ?sw = "\<lambda>allowed. process_candidate (example_world ?reply allowed) False ?reply
               example_state"
  let ?lg = "\<lambda>allowed. legacy_process_reply (example_world ?reply allowed) False
               [gated_click, plain_navigate] []"
  have sw: "?sw allowed = (fst (?sw allowed), fst (snd (?sw allowed)), snd (snd (?sw allowed)))"
    and lg: "?lg allowed = (fst (?lg allowed), fst (snd (?lg allowed)), snd (snd (?lg allowed)))"
    for allowed
    by simp_all
  note approved = safety_gating [OF sw [of True] lg [of True], of 0 ?click,
      THEN conjunct2, THEN conjunct1]
  note denied = safety_gating [OF sw [of False] lg [of False], of 0 ?click,
      THEN conjunct2, THEN conjunct2, THEN conjunct2, THEN conjunct2, THEN conjunct2,
      THEN conjunct2, THEN conjunct1]
  from approved approved_run
  have "SafetyAnswer 0 True \<in> set (before (ExecuteAction 0 ?click) (snd (snd (?sw True))))"
    by blast
  moreover
  from denied denied_legacy_run(1,2)
  have "denial_recorded (fst (snd (?lg False)))"
    by blast
  ultimately show ?thesis by simp
qed

text \<open>
  Claim C2, as stated, fails in the older loop: the reply asks for a flagged click and
  then a navigation, the click is denied, and the navigation is executed all the same.
\<close>

theorem denial_continues_counterexample:
  "SafetyAnswer 0 False \<in> set (snd (snd (legacy_process_reply
       (example_world (reply_with [gated_click, plain_navigate] ''STOP'') False) False
       [gated_click, plain_navigate] [])))
   \<and> ExecuteAction 1 \<lparr>fc_name = ''navigate'', fc_args = [(''url'', JStr ''weather.com'')]\<rparr>
       \<in> set (snd (snd (legacy_process_reply
       (example_world (reply_with [gated_click, plain_navigate] ''STOP'') False) False
       [gated_click, plain_navigate] [])))
   \<and> fst (legacy_process_reply
       (example_world (reply_with [gated_click, plain_navigate] ''STOP'') False) False
       [gated_click, plain_navigate] []) = CONTINUE"
  by code_simp

text \<open>
  Claim C2, amended: in \<open>runOneIteration\<close> of src/background/service-worker.js a denial
  ends the iteration with \<open>COMPLETE\<close>; only calls before the denied one have been
  executed, and the history has gained the model turn and no function responses. In
  the older loop a denial skips the denied call only: when the pass reaches its end,
  every call of the batch that was not denied has been executed.
\<close>

theorem denial_ends_iteration:
  assumes "process_candidate w highlightMouse candidate s = (result, s', es)"
    and "legacy_process_reply w highlightMouse ps history = (result_l, history_l, es_l)"
  shows
    "(SafetyAnswer k False \<in> set es \<longrightarrow>
        result = COMPLETE
        \<and> (\<forall>j fc. ExecuteAction j fc \<in> set es \<longrightarrow> j < k)
        \<and> contents s' = addModelResponse candidate (contents s))
     \<and> (result_l = CONTINUE \<longrightarrow>
        (\<forall>i<length (calls_of_parts ps).
           ExecuteAction i (calls_of_parts ps ! i) \<in> set es_l
           \<or> SafetyAnswer i False \<in> set es_l))"
proof
  show "SafetyAnswer k False \<in> set es \<longrightarrow>
        result = COMPLETE
        \<and> (\<forall>j fc. ExecuteAction j fc \<in> set es \<longrightarrow> j < k)
        \<and> contents s' = addModelResponse candidate (contents s)"
    using assms(1)
  proof (cases rule: process_candidate_cases)
    case retry
    then show ?thesis by simp
  next
    case (final st)
    then show ?thesis
      by (auto simp: finish_without_calls_def Let_def split: if_splits)
  next
    case (batch e frs s2 bes)
    show ?thesis
    proof
      assume "SafetyAnswer k False \<in> set es"
      with batch(3) have d: "SafetyAnswer k False \<in> set bes" by simp
      from batch_denied [OF batch(2) d] batch(3,4) batch_contents [OF batch(2)]
      show "result = COMPLETE
        \<and> (\<forall>j fc. ExecuteAction j fc \<in> set es \<longrightarrow> j < k)
        \<and> contents s' = addModelResponse candidate (contents s)"
        by auto
    qed
  qed
  show "result_l = CONTINUE \<longrightarrow>
        (\<forall>i<length (calls_of_parts ps).
           ExecuteAction i (calls_of_parts ps ! i) \<in> set es_l
           \<or> SafetyAnswer i False \<in> set es_l)"
    using assms(2)
  proof (cases rule: legacy_process_cases)
    case final
    then show ?thesis by simp
  next
    case (batch e frs bes tail)
    from legacy_finished [OF batch(2)] batch(3,5) show ?thesis by auto
  qed
qed

lemma denied_run:
  "SafetyAnswer 0 False \<in> set (snd (snd (process_candidate
       (example_world (reply_with [gated_click, plain_navigate] ''STOP'') False) False
       (reply_with [gated_click, plain_navigate] ''STOP'') example_state)))"
  by code_simp

theorem denial_ends_iteration_witness:
  "fst (process_candidate
       (example_world (reply_with [gated_click, plain_navigate] ''STOP'') False) False
       (reply_with [gated_click, plain_navigate] ''STOP'') example_state) = COMPLETE
   \<and> (\<forall>j fc. ExecuteAction j fc \<notin> set (snd (snd (process_candidate
       (example_world (reply_with [gated_click, plain_navigate] ''STOP'') False) False
       (reply_with [gated_click, plain_navigate] ''STOP'') example_state))))
   \<and> contents (fst (snd (process_candidate
       (example_world (reply_with [gated_click, plain_navigate] ''STOP'') False) False
       (reply_with [gated_click, plain_navigate] ''STOP'') example_state)))
       = contents example_state
           @ [\<lparr>c_role = ''model'', c_parts = Some [gated_click, plain_navigate]\<rparr>]
   \<and> (ExecuteAction 1 (calls_of_parts [gated_click, plain_navigate] ! 1)
         \<in> set (snd (snd (legacy_process_reply
             (example_world (reply_with [gated_click, plain_navigate] ''STOP'') False) False
             [gated_click, plain_navigate] [])))
       \<or> SafetyAnswer 1 False
         \<in> set (snd (snd (legacy_process_reply
             (example_world (reply_with [gated_click, plain_navigate] ''STOP'') False) False
             [gated_click, plain_navigate] []))))"
proof -
  let ?reply = "reply_with [gated_click, plain_navigate] ''STOP''"
  let ?sw = "process_candidate (example_world ?reply False) False ?reply example_state"
  let ?lg = "legacy_process_reply (example_world ?reply False) False
               [gated_click, plain_navigate] []"
  have sw: "?sw = (fst ?sw, fst (snd ?sw), snd (snd ?sw))"
    and lg: "?lg = (fst ?lg, fst (snd ?lg), snd (snd ?lg))"
    by simp_all
  note d = denial_ends_iteration [OF sw lg, of 0]
  have len: "length (calls_of_parts [gated_click, plain_navigate]) = 2"
    by code_simp
  have model: "addModelResponse ?reply (contents example_state)
     = contents example_state @ [\<lparr>c_role = ''model'', c_parts = Some [gated_click, plain_navigate]\<rparr>]"
    by (simp add: addModelResponse_def reply_with_def)
  from d [THEN conjunct1] denied_run
  have a: "fst ?sw = COMPLETE \<and> (\<forall>j fc. ExecuteAction j fc \<in> set (snd (snd ?sw)) \<longrightarrow> j < 0)
     \<and> contents (fst (snd ?sw)) = addModelResponse ?reply (contents example_state)"
    by blast
  from d [THEN conjunct2] denied_legacy_run(2) len
  have b: "ExecuteAction 1 (calls_of_parts [gated_click, plain_navigate] ! 1) \<in> set (snd (snd ?lg))
       \<or> SafetyAnswer 1 False \<in> set (snd (snd ?lg))"
    by simp
  from a b model show ?thesis by simp
qed

section \<open>Properties of the question test\<close>

lemma str_includes_iff: "str_includes s sub \<longleftrightarrow> (\<exists>a b. s = a @ sub @ b)"
proof (induction s)
  case Nil
  then show ?case by auto
next
  case (Cons x xs)
  show ?case
  proof
    assume "str_includes (x # xs) sub"
    then consider "prefix sub (x # xs)" | "str_includes xs sub"
      by (auto simp: startsWith_prefix)
    then show "\<exists>a b. x # xs = a @ sub @ b"
    proof cases
      case 1
      then obtain r where "x # xs = sub @ r" by (auto simp: prefix_def)
      then have "x # xs = [] @ sub @ r" by simp
      then show ?thesis by blast
    next
      case 2
      with Cons.IH obtain a b where "xs = a @ sub @ b" by auto
      then have "x # xs = (x # a) @ sub @ b" by simp
      then show ?thesis by blast
    qed
  next
    assume "\<exists>a b. x # xs = a @ sub @ b"
    then obtain a b where ab: "x # xs = a @ sub @ b" by auto
    show "str_includes (x # xs) sub"
    proof (cases a)
      case Nil
      with ab have "prefix sub (x # xs)" by (simp add: prefix_def)
      then show ?thesis by (simp add: startsWith_prefix)
    next
      case (Cons y ys)
      with ab have "xs = ys @ sub @ b" by simp
      with Cons.IH show ?thesis by auto
    qed
  qed
qed

lemma test_ignoring_case_iff:
  "test_ignoring_case phrase t \<longleftrightarrow>
     (\<exists>pre occurrence post. t = pre @ occurrence @ post \<and> equal_ignoring_case occurrence phrase)"
proof
  assume "test_ignoring_case phrase t"
  then obtain a b where "map fold_case t = a @ map fold_case phrase @ b"
    by (auto simp: test_ignoring_case_def str_includes_iff)
  then obtain pre rest where 1: "t = pre @ rest" "map fold_case phrase @ b = map fold_case rest"
    by (auto simp: map_eq_append_conv)
  from 1(2) obtain occurrence post where 2: "rest = occurrence @ post"
    "map fold_case phrase = map fold_case occurrence"
    by (auto simp: append_eq_map_conv)
  with 1 show "\<exists>pre occurrence post. t = pre @ occurrence @ post
      \<and> equal_ignoring_case occurrence phrase"
    by (auto simp: equal_ignoring_case_def)
next
  assume "\<exists>pre occurrence post. t = pre @ occurrence @ post
      \<and> equal_ignoring_case occurrence phrase"
  then obtain pre occurrence post where "t = pre @ occurrence @ post"
    "map fold_case occurrence = map fold_case phrase"
    by (auto simp: equal_ignoring_case_def)
  then have "map fold_case t = map fold_case pre @ map fold_case phrase @ map fold_case post"
    by simp
  then show "test_ignoring_case phrase t"
    unfolding test_ignoring_case_def str_includes_iff by blast
qed

lemma text_lines_not_Nil: "text_lines t \<noteq> []"
  by (induction t) (auto split: list.splits)

lemma first_line_empty:
  "hd (text_lines t) = [] \<longleftrightarrow> (case t of [] \<Rightarrow> True | d # _ \<Rightarrow> is_line_terminator d)"
  by (cases t) (auto split: list.splits)

lemma question_mark_iff:
  "question_mark_at_line_end t \<longleftrightarrow> (\<exists>l \<in> set (text_lines t). l \<noteq> [] \<and> last l = CHR ''?'')"
proof (induction t)
  case Nil
  then show ?case by simp
next
  case (Cons c cs)
  obtain l ls where ls: "text_lines cs = l # ls"
    using text_lines_not_Nil [of cs] by (cases "text_lines cs") auto
  have empty: "l = [] \<longleftrightarrow> (case cs of [] \<Rightarrow> True | d # _ \<Rightarrow> is_line_terminator d)"
    using first_line_empty [of cs] ls by simp
  show ?case
  proof (cases "is_line_terminator c")
    case True
    then have "c \<noteq> CHR ''?''" by (auto simp: is_line_terminator_def)
    with True Cons.IH show ?thesis by simp
  next
    case False
    with Cons.IH ls empty show ?thesis
      by (cases "l = []") auto
  qed
qed

text \<open>The test in the code is the question heuristic of the specification.\<close>

lemma isWaitingForInput_iff:
  "isWaitingForInput t \<longleftrightarrow> (\<exists>s. t = Some s \<and> spec_question_heuristic s)"
proof (cases t)
  case None
  then show ?thesis by (simp add: isWaitingForInput_def)
next
  case (Some s)
  show ?thesis
  proof (cases "s = []")
    case True
    with Some show ?thesis
      by (simp add: isWaitingForInput_def spec_question_heuristic_def spec_phrases_def
          equal_ignoring_case_def)
  next
    case False
    with Some show ?thesis
      unfolding isWaitingForInput_def spec_question_heuristic_def
      by (simp add: questionIndicators_def spec_phrases_def question_mark_iff
          test_ignoring_case_iff)
  qed
qed

lemma isWaitingForInput_api_iff:
  "isWaitingForInput_api ps \<longleftrightarrow>
     calls_of_parts ps = [] \<and> spec_question_heuristic (extractText ps)"
  using isWaitingForInput_iff [of "Some (extractText ps)"]
  by (auto simp: isWaitingForInput_api_def isWaitingForInput_def Let_def)

section \<open>Properties of a reply without function calls\<close>

lemma statuses_simps:
  "statuses [] = []"
  "statuses (ToSidepanel (STATUS_UPDATE st) # es) = st # statuses es"
  "statuses (ToSidepanel (UPDATE_CONVERSATION a b c d) # es) = statuses es"
  "statuses (ToSidepanel TRAJECTORY_UPDATED # es) = statuses es"
  "statuses (SaveTrajectory # es) = statuses es"
  by (simp_all add: statuses_def List.map_filter_simps)

text \<open>
  Claim C3, as stated, fails for a reply that ends with a malformed function call and
  has neither text nor function calls: the iteration returns \<open>CONTINUE\<close> and sends no
  status at all.
\<close>

theorem malformed_reply_no_status_counterexample:
  "extractFunctionCalls malformed_candidate = []
   \<and> fst (runOneIteration (example_world malformed_candidate True) False example_state)
       = CONTINUE
   \<and> statuses (snd (snd
        (runOneIteration (example_world malformed_candidate True) False example_state))) = []"
  by code_simp

text \<open>
  Claim C3, amended: for a reply without function calls the executor is never
  invoked. If the reply ends with a malformed function call and has no text outside
  thoughts, \<open>runOneIteration\<close> returns \<open>CONTINUE\<close> without any effect. Otherwise it
  returns \<open>COMPLETE\<close> and sends one status, its last effect: \<open>waiting\<close> if the text
  outside thoughts matches the question heuristic of the specification, \<open>idle\<close> if it
  does not or there is no such text. The older loop leaves its \<open>while\<close> loop and sends
  \<open>waiting\<close> or \<open>idle\<close> by the same heuristic, applied to the trimmed text of all
  parts.
\<close>

theorem reply_without_calls:
  assumes "extractFunctionCalls candidate = []"
    and "process_candidate w highlightMouse candidate s = (result, s', es)"
    and "calls_of_parts ps = []"
  shows
    "(\<forall>k fc. ExecuteAction k fc \<notin> set es)
     \<and> ((getText candidate = None \<or> getText candidate = Some [])
          \<and> isMalformedFunctionCall candidate \<longrightarrow>
        result = CONTINUE \<and> es = [])
     \<and> (\<not> ((getText candidate = None \<or> getText candidate = Some [])
             \<and> isMalformedFunctionCall candidate) \<longrightarrow>
        result = COMPLETE
        \<and> statuses es =
            [if \<exists>t. getText candidate = Some t \<and> spec_question_heuristic t
             then ''waiting'' else ''idle'']
        \<and> last es = ToSidepanel (STATUS_UPDATE
            (if \<exists>t. getText candidate = Some t \<and> spec_question_heuristic t
             then ''waiting'' else ''idle'')))
     \<and> legacy_process_reply w highlightMouse ps history =
         (COMPLETE, history @ [\<lparr>c_role = ''model'', c_parts = Some ps\<rparr>],
          [ToSidepanel (UPDATE_CONVERSATION ''model'' (Some (extractText ps)) None []),
           ToSidepanel (STATUS_UPDATE
             (if spec_question_heuristic (extractText ps) then ''waiting'' else ''idle''))])"
proof -
  have legacy: "legacy_process_reply w highlightMouse ps history =
         (COMPLETE, history @ [\<lparr>c_role = ''model'', c_parts = Some ps\<rparr>],
          [ToSidepanel (UPDATE_CONVERSATION ''model'' (Some (extractText ps)) None []),
           ToSidepanel (STATUS_UPDATE
             (if spec_question_heuristic (extractText ps) then ''waiting'' else ''idle''))])"
    using assms(3)
    by (simp add: legacy_process_reply_def Let_def isWaitingForInput_api_iff)
  from assms(2) have "(\<forall>k fc. ExecuteAction k fc \<notin> set es)
     \<and> ((getText candidate = None \<or> getText candidate = Some [])
          \<and> isMalformedFunctionCall candidate \<longrightarrow>
        result = CONTINUE \<and> es = [])
     \<and> (\<not> ((getText candidate = None \<or> getText candidate = Some [])
             \<and> isMalformedFunctionCall candidate) \<longrightarrow>
        result = COMPLETE
        \<and> statuses es =
            [if \<exists>t. getText candidate = Some t \<and> spec_question_heuristic t
             then ''waiting'' else ''idle'']
        \<and> last es = ToSidepanel (STATUS_UPDATE
            (if \<exists>t. getText candidate = Some t \<and> spec_question_heuristic t
             then ''waiting'' else ''idle'')))"
  proof (cases rule: process_candidate_cases)
    case retry
    then show ?thesis by simp
  next
    case (final st)
    from final(4) have "st = [ToSidepanel (STATUS_UPDATE
            (if isWaitingForInput (getText candidate) then ''waiting'' else ''idle''))]
       \<or> st = [SaveTrajectory, ToSidepanel TRAJECTORY_UPDATED, ToSidepanel (STATUS_UPDATE
            (if isWaitingForInput (getText candidate) then ''waiting'' else ''idle''))]"
      by (auto simp: finish_without_calls_def Let_def split: if_splits)
    with final(2,3,5) show ?thesis
      by (auto simp: statuses_simps isWaitingForInput_iff)
  next
    case (batch e frs s2 bes)
    with assms(1) show ?thesis by simp
  qed
  with legacy show ?thesis by simp
qed

lemma question_examples:
  "isWaitingForInput (Some ''Should I submit the form?'')"
  "\<not> isWaitingForInput (Some ''Done! The page now shows 72 degrees.'')"
  "getText (text_reply ''Should I submit the form?'') = Some ''Should I submit the form?''"
  "getText (text_reply ''Done! The page now shows 72 degrees.'')
     = Some ''Done! The page now shows 72 degrees.''"
  "extractFunctionCalls (text_reply ''Should I submit the form?'') = []"
  "extractFunctionCalls (text_reply ''Done! The page now shows 72 degrees.'') = []"
  "\<not> isMalformedFunctionCall (text_reply ''Should I submit the form?'')"
  "\<not> isMalformedFunctionCall (text_reply ''Done! The page now shows 72 degrees.'')"
  "calls_of_parts [text_part ''Should I submit the form? ''] = []"
  "extractText [text_part ''Should I submit the form? ''] = ''Should I submit the form?''"
  by code_simp+

theorem reply_without_calls_witness:
  "statuses (snd (snd (process_candidate
       (example_world (text_reply ''Should I submit the form?'') True) False
       (text_reply ''Should I submit the form?'') example_state))) = [''waiting'']
   \<and> statuses (snd (snd (process_candidate
       (example_world (text_reply ''Done! The page now shows 72 degrees.'') True) False
       (text_reply ''Done! The page now shows 72 degrees.'') example_state))) = [''idle'']
   \<and> fst (process_candidate
       (example_world (text_reply ''Should I submit the form?'') True) False
       (text_reply ''Should I submit the form?'') example_state) = COMPLETE
   \<and> snd (snd (legacy_process_reply
       (example_world (text_reply ''Should I submit the form?'') True) False
       [text_part ''Should I submit the form? ''] []))
      = [ToSidepanel (UPDATE_CONVERSATION ''model'' (Some ''Should I submit the form?'') None []),
         ToSidepanel (STATUS_UPDATE ''waiting'')]"
proof -
  let ?q = "text_reply ''Should I submit the form?''"
  let ?d = "text_reply ''Done! The page now shows 72 degrees.''"
  let ?pq = "process_candidate (example_world ?q True) False ?q example_state"
  let ?pd = "process_candidate (example_world ?d True) False ?d example_state"
  have q: "?pq = (fst ?pq, fst (snd ?pq), snd (snd ?pq))"
    and d: "?pd = (fst ?pd, fst (snd ?pd), snd (snd ?pd))"
    by simp_all
  have hq: "spec_question_heuristic ''Should I submit the form?''"
    and hd: "\<not> spec_question_heuristic ''Done! The page now shows 72 degrees.''"
    using question_examples(1,2) by (simp_all add: isWaitingForInput_iff)
  note rq = reply_without_calls [where history = "[]", OF question_examples(5) q
      question_examples(9)]
  note rd = reply_without_calls [where history = "[]", OF question_examples(6) d
      question_examples(9)]
  from rq hq have "statuses (snd (snd ?pq)) = [''waiting'']" "fst ?pq = COMPLETE"
    by (simp_all add: question_examples)
  moreover from rd hd have "statuses (snd (snd ?pd)) = [''idle'']"
    by (simp add: question_examples)
  moreover from rq hq have "snd (snd (legacy_process_reply (example_world ?q True) False
       [text_part ''Should I submit the form? ''] []))
      = [ToSidepanel (UPDATE_CONVERSATION ''model'' (Some ''Should I submit the form?'') None []),
         ToSidepanel (STATUS_UPDATE ''waiting'')]"
    by (simp add: question_examples)
  ultimately show ?thesis by simp
qed

text \<open>
  The status of an iteration is not the last word: when the loop ends and no stop was
  requested, \<open>runAgentLoop\<close> sends \<open>idle\<close> after it.
\<close>

lemma runAgentLoop_idle_after_complete:
  assumes "runOneIteration (worlds 0) highlightMouse s = (COMPLETE, s', es)"
    and "\<not> stopBefore 0" and "\<not> stopAtEnd"
  shows "runAgentLoop (Suc fuel) worlds stopBefore stopAtEnd highlightMouse None s =
     (Ended, s', ToSidepanel (STATUS_UPDATE ''running'') # es
                   @ [ToSidepanel (STATUS_UPDATE ''idle'')])"
  using assms by (simp add: runAgentLoop_def)


section \<open>Properties of the retry after a malformed function call\<close>

lemma getModelResponse_first_event:
  "\<exists>rest. snd (getModelResponse gen cs) = GenerateContent cs # rest"
  unfolding getModelResponse_def
  by (subst getModelResponse_from.simps)
    (auto simp: maxRetries_def split: option.splits generate_outcome.splits prod.splits)

lemma runOneIteration_first_event:
  "\<exists>rest. snd (snd (runOneIteration w h s)) = GenerateContent (contents s) # rest"
proof -
  obtain r es where g: "getModelResponse (generate w) (contents s) = (r, es)"
    by (cases "getModelResponse (generate w) (contents s)")
  with getModelResponse_first_event [of "generate w" "contents s"]
  obtain rest where "es = GenerateContent (contents s) # rest" by auto
  with g show ?thesis
    by (auto simp: runOneIteration_def
        split: awaited.splits sum.splits option.splits list.splits prod.splits)
qed

text \<open>
  Claim C4, as stated, fails when the malformed candidate has a content object: the
  content is appended to the history before the retry.
\<close>

theorem malformed_retry_appends_counterexample:
  "isMalformedFunctionCall malformed_with_content
   \<and> getText malformed_with_content = None
   \<and> extractFunctionCalls malformed_with_content = []
   \<and> fst (runOneIteration (example_world malformed_with_content True) False example_state)
       = CONTINUE
   \<and> contents (fst (snd
        (runOneIteration (example_world malformed_with_content True) False example_state)))
       = contents example_state @ [\<lparr>c_role = ''model'', c_parts = Some []\<rparr>]
   \<and> contents (fst (snd
        (runOneIteration (example_world malformed_with_content True) False example_state)))
       \<noteq> contents example_state"
  by code_simp

text \<open>
  Claim C4, amended: when the first candidate of the reply ends with a malformed
  function call and yields neither text nor function calls, \<open>runOneIteration\<close> returns
  \<open>CONTINUE\<close> with the request to the model as its only effect; no turn of the history
  is modified, the content object of the candidate, if it has one, is appended, and a
  candidate without content leaves the history identical. Unless a stop is requested,
  the loop then waits 300 ms and issues the model call again, with that history.
\<close>

theorem malformed_call_retry:
  assumes "isMalformedFunctionCall candidate"
    and "getText candidate = None \<or> getText candidate = Some []"
    and "extractFunctionCalls candidate = []"
    and "generate (worlds i) 0 = Some (Resolves \<lparr>candidates = Some (candidate # others)\<rparr>)"
    and "\<not> stopBefore i" and "\<not> stopBefore (Suc i)"
  shows
    "runOneIteration (worlds i) highlightMouse s =
       (CONTINUE,
        s\<lparr>contents := contents s @ (case cand_content candidate of None \<Rightarrow> [] | Some c \<Rightarrow> [c])\<rparr>,
        [GenerateContent (contents s)])
     \<and> (cand_content candidate = None \<longrightarrow>
          runOneIteration (worlds i) highlightMouse s =
            (CONTINUE, s, [GenerateContent (contents s)]))
     \<and> take (length (contents s))
          (contents (fst (snd (runOneIteration (worlds i) highlightMouse s)))) = contents s
     \<and> (\<exists>rest. snd (snd (agent_while (Suc (Suc fuel)) worlds stopBefore highlightMouse i s))
          = [GenerateContent (contents s), Sleep 300,
             GenerateContent (contents (fst (snd (runOneIteration (worlds i) highlightMouse s))))]
            @ rest)"
proof -
  let ?s' = "s\<lparr>contents := contents s
      @ (case cand_content candidate of None \<Rightarrow> [] | Some c \<Rightarrow> [c])\<rparr>"
  have g: "getModelResponse (generate (worlds i)) (contents s) =
      (Settled (Inr (Some \<lparr>candidates = Some (candidate # others)\<rparr>)),
       [GenerateContent (contents s)])"
    unfolding getModelResponse_def using assms(4)
    by (subst getModelResponse_from.simps) (simp add: maxRetries_def)
  have p: "process_candidate (worlds i) highlightMouse candidate s = (CONTINUE, ?s', [])"
    using assms(1,2,3)
    by (auto simp: process_candidate_def Let_def addModelResponse_def split: option.splits)
  have run: "runOneIteration (worlds i) highlightMouse s =
      (CONTINUE, ?s', [GenerateContent (contents s)])"
    by (simp add: runOneIteration_def g p)
  have same: "cand_content candidate = None \<Longrightarrow> ?s' = s" by simp
  obtain e2 s2 later where
    next_run: "agent_while (Suc fuel) worlds stopBefore highlightMouse (Suc i) ?s' = (e2, s2, later)"
    by (cases "agent_while (Suc fuel) worlds stopBefore highlightMouse (Suc i) ?s'")
  obtain r3 s3 es3 where
    it: "runOneIteration (worlds (Suc i)) highlightMouse ?s' = (r3, s3, es3)"
    by (cases "runOneIteration (worlds (Suc i)) highlightMouse ?s'")
  from runOneIteration_first_event [of "worlds (Suc i)" highlightMouse ?s'] it
  obtain rest3 where es3: "es3 = GenerateContent (contents ?s') # rest3" by auto
  have "\<exists>rest. later = GenerateContent (contents ?s') # rest"
    using next_run it es3 assms(6)
    by (cases r3; cases fuel) (auto split: prod.splits)
  then obtain rest where later: "later = GenerateContent (contents ?s') # rest" by auto
  have loop: "snd (snd (agent_while (Suc (Suc fuel)) worlds stopBefore highlightMouse i s))
      = [GenerateContent (contents s), Sleep 300, GenerateContent (contents ?s')] @ rest"
    using assms(5) run next_run later by simp
  show ?thesis
    using run same loop by (auto simp: run)
qed

theorem malformed_call_retry_witness:
  "runOneIteration (example_world malformed_candidate True) False example_state =
       (CONTINUE, example_state, [GenerateContent (contents example_state)])
   \<and> (\<exists>rest. snd (snd (agent_while 2 (\<lambda>i. example_world malformed_candidate True)
                        (\<lambda>i. False) False 0 example_state))
        = [GenerateContent (contents example_state), Sleep 300,
           GenerateContent (contents example_state)] @ rest)"
proof -
  have m: "isMalformedFunctionCall malformed_candidate"
    "getText malformed_candidate = None \<or> getText malformed_candidate = Some []"
    "extractFunctionCalls malformed_candidate = []"
    "cand_content malformed_candidate = None"
    by (simp_all add: malformed_candidate_def isMalformedFunctionCall_def getText_def
        extractFunctionCalls_def)
  have g: "generate ((\<lambda>i. example_world malformed_candidate True) 0) 0
      = Some (Resolves \<lparr>candidates = Some (malformed_candidate # [])\<rparr>)"
    by (simp add: example_world_def)
  have two: "(2::nat) = Suc (Suc 0)" by simp
  from malformed_call_retry [where worlds = "\<lambda>i. example_world malformed_candidate True"
      and i = 0 and stopBefore = "\<lambda>i. False" and highlightMouse = False
      and s = example_state and fuel = 0, OF m(1,2,3) g] m(4)
  show ?thesis
    unfolding two by auto
qed


section \<open>The retry policy of the older gateway\<close>

text \<open>
  \<open>callGeminiAPI\<close> retries a rate limit three times, after 1, 2 and 4 seconds, and
  surfaces any other HTTP error at once.
\<close>

lemma callGeminiAPI_rate_limited:
  "callGeminiAPI (fetch_status 429) [] =
     (Settled (Inl ''Rate limited. Please try again later.''),
      [Fetch [], Sleep 1000, Fetch [], Sleep 2000, Fetch [], Sleep 4000, Fetch []])"
  by code_simp

lemma callGeminiAPI_server_error:
  "callGeminiAPI (fetch_status 500) [] = (Settled (Inl ''API error: 500''), [Fetch []])"
  by code_simp

end
